theory Spec2Isabelle
  imports Complex_Main "HOL-Library.Sublist"
begin

section \<open>Data model of the worksheet parser (src/utils/excelParser.js, src/utils/headerAnalyzer.js)\<close>

text \<open>
  A cell value \<open>cell.v\<close> as the parser inspects it: absent (\<open>null\<close> or \<open>undefined\<close>,
  which the code never distinguishes), a string, a number or a boolean. Numbers are
  modelled by integers: the parser only looks at their type, their truthiness and their
  strict equality.
\<close>

datatype cellValue = VNull | VStr string | VNum int | VBool bool

text \<open>A thrown JavaScript error, with the two fields that \<open>handleError\<close> reads.\<close>

record jsError =
  message :: string
  stack :: string

text \<open>
  A custom header pattern is a regular-expression source. \<open>new RegExp(pattern, 'i')\<close>
  either throws (an invalid source) or yields a matcher whose \<open>test\<close> is total; the regular
  expression engine itself is not part of the repository, so a pattern is given by that
  outcome.
\<close>

type_synonym customPattern = "jsError + (string \<Rightarrow> bool)"

record headerDetectionConfig =
  fuzzyMatchThreshold :: "real option"

record errorHandlingConfig =
  throwErrors :: bool

text \<open>
  \<open>config.get('excel')\<close>, and the library function \<open>stringSimilarity.compareTwoStrings\<close>
  (not part of the repository) as the field \<open>compareTwoStrings\<close>. The sections
  \<open>headerDetection\<close> and \<open>errorHandling\<close> may be missing from the configuration object.
\<close>

record excelConfig =
  customPatterns :: "customPattern list"
  headerDetection :: "headerDetectionConfig option"
  errorHandling :: "errorHandlingConfig option"
  compareTwoStrings :: "string \<Rightarrow> string \<Rightarrow> real"

record mergeRange =
  ms_r :: nat
  ms_c :: nat
  me_r :: nat
  me_c :: nat

text \<open>
  The worksheet: \<open>cells ws r c\<close> is \<open>worksheet[encode_cell({r, c})].v\<close> (\<open>VNull\<close> when the
  cell object is missing), \<open>range_e_r\<close> and \<open>range_e_c\<close> are \<open>range.e.r\<close> and \<open>range.e.c\<close>,
  \<open>merges\<close> is \<open>worksheet['!merges'] || []\<close>.
\<close>

record worksheet =
  cells :: "nat \<Rightarrow> nat \<Rightarrow> cellValue"
  range_e_r :: nat
  range_e_c :: nat
  merges :: "mergeRange list"

record header =
  hrow :: nat
  column :: nat
  hvalue :: string
  hlevel :: int

text \<open>A row object: the own keys in insertion order, each with its value.\<close>

type_synonym rowData = "(string \<times> cellValue) list"

record tableMetadata =
  indentation :: "nat option"
  patternType :: "string option"
  contentType :: "string option"
  relationshipType :: "string option"

text \<open>
  A table object. Tables are mutable objects that refer to one another; the model keeps
  them in a store (the list of tables in detection order) and a reference to a table is its
  index in that store: \<open>children\<close> is a list of indices and \<open>parent\<close> an optional index.
  \<open>tid n\<close> stands for the identifier \<open>table_n\<close>; \<open>rowCount\<close> is \<open>None\<close> until
  \<open>finalizeTable\<close> sets it.
\<close>

record table =
  tid :: nat
  startRow :: nat
  endRow :: nat
  headers :: "header list"
  dataRows :: "rowData list"
  children :: "nat list"
  level :: nat
  parent :: "nat option"
  metadata :: tableMetadata
  rowCount :: "nat option"

record rowAnalysis =
  isHeaderRow :: bool
  isDataRow :: bool
  isEmpty :: bool
  consecutiveEmptyRows :: nat
  headerCount :: nat
  dataCount :: nat

section \<open>Strings\<close>

text \<open>
  A string is a list of bytes; \<open>trim\<close>, \<open>toLowerCase\<close> and the character classes are those
  of the source on ASCII text.
\<close>

definition isWhitespace :: "char \<Rightarrow> bool" where
  "isWhitespace c = (c \<in> set [CHR '' '', CHR 0x09, CHR 0x0A, CHR 0x0B, CHR 0x0C, CHR 0x0D])"

definition trim :: "string \<Rightarrow> string" where
  "trim s = rev (dropWhile isWhitespace (rev (dropWhile isWhitespace s)))"

definition upperChars :: string where
  "upperChars = ''ABCDEFGHIJKLMNOPQRSTUVWXYZ''"

definition lowerChars :: string where
  "lowerChars = ''abcdefghijklmnopqrstuvwxyz''"

definition digitChars :: string where
  "digitChars = ''0123456789''"

text \<open>\<open>/[A-Za-z]/.test(s)\<close>\<close>

definition hasLetter :: "string \<Rightarrow> bool" where
  "hasLetter s = list_ex (\<lambda>c. c \<in> set upperChars \<or> c \<in> set lowerChars) s"

definition toLowerCase :: "string \<Rightarrow> string" where
  "toLowerCase s = map (\<lambda>c. case map_of (zip upperChars lowerChars) c of
                                 Some l \<Rightarrow> l | None \<Rightarrow> c) s"

fun startsWith :: "string \<Rightarrow> string \<Rightarrow> bool" where
  "startsWith s [] = True"
| "startsWith [] (p # ps) = False"
| "startsWith (c # cs) (p # ps) = (c = p \<and> startsWith cs ps)"

text \<open>\<open>s.includes(sub)\<close>\<close>

fun includesStr :: "string \<Rightarrow> string \<Rightarrow> bool" where
  "includesStr [] sub = (sub = [])"
| "includesStr (c # cs) sub = (startsWith (c # cs) sub \<or> includesStr cs sub)"

section \<open>Row classification\<close>

definition getCellValue :: "worksheet \<Rightarrow> nat \<Rightarrow> nat \<Rightarrow> cellValue" where
  "getCellValue ws row col = cells ws row col"

text \<open>\<open>value === null || value === undefined || value === ""\<close>\<close>

definition isBlankValue :: "cellValue \<Rightarrow> bool" where
  "isBlankValue v = (v = VNull \<or> v = VStr [])"

text \<open>
  The loop over the custom patterns: each pattern is compiled, then tested; the first
  match ends the loop, an invalid pattern throws.
\<close>

fun testCustomPatterns :: "customPattern list \<Rightarrow> string \<Rightarrow> jsError + bool" where
  "testCustomPatterns [] s = Inr False"
| "testCustomPatterns (p # ps) s =
     (case p of
        Inl e \<Rightarrow> Inl e
      | Inr test \<Rightarrow> if test s then Inr True else testCustomPatterns ps s)"

definition isPotentialHeader :: "excelConfig \<Rightarrow> cellValue \<Rightarrow> jsError + bool" where
  "isPotentialHeader cfg v =
     (case v of
        VStr s \<Rightarrow>
          (case testCustomPatterns (customPatterns cfg) s of
             Inl e \<Rightarrow> Inl e
           | Inr True \<Rightarrow> Inr True
           | Inr False \<Rightarrow> Inr (length (trim s) > 0 \<and> hasLetter s))
      | _ \<Rightarrow> Inr False)"

definition isPotentialData :: "cellValue \<Rightarrow> bool" where
  "isPotentialData v =
     (case v of
        VStr s \<Rightarrow> length (trim s) > 0
      | VNum n \<Rightarrow> True
      | VBool b \<Rightarrow> True
      | VNull \<Rightarrow> False)"

text \<open>The inner loop of \<open>countConsecutiveEmptyRows\<close>: every column of the row is blank.\<close>

definition rowIsBlank :: "worksheet \<Rightarrow> nat \<Rightarrow> bool" where
  "rowIsBlank ws row =
     list_all (\<lambda>col. isBlankValue (getCellValue ws row col)) [0 ..< Suc (range_e_c ws)]"

text \<open>The scan starts at \<open>currentRow + 1\<close> and stops at the first row that is not blank.\<close>

definition countConsecutiveEmptyRows :: "worksheet \<Rightarrow> nat \<Rightarrow> nat" where
  "countConsecutiveEmptyRows ws currentRow =
     length (takeWhile (rowIsBlank ws) [Suc currentRow ..< Suc (range_e_r ws)])"

text \<open>
  The column loop of \<open>analyzeRow\<close>; the accumulator is
  \<open>(headerCount, dataCount, emptyCount)\<close>.
\<close>

fun analyzeCols ::
  "excelConfig \<Rightarrow> worksheet \<Rightarrow> nat \<Rightarrow> nat list \<Rightarrow> nat \<times> nat \<times> nat \<Rightarrow> jsError + nat \<times> nat \<times> nat"
where
  "analyzeCols cfg ws row [] acc = Inr acc"
| "analyzeCols cfg ws row (col # cols) (hc, dc, ec) =
     (let v = getCellValue ws row col in
      if isBlankValue v then analyzeCols cfg ws row cols (hc, dc, Suc ec)
      else
        (case isPotentialHeader cfg v of
           Inl e \<Rightarrow> Inl e
         | Inr True \<Rightarrow> analyzeCols cfg ws row cols (Suc hc, dc, ec)
         | Inr False \<Rightarrow>
             if isPotentialData v then analyzeCols cfg ws row cols (hc, Suc dc, ec)
             else analyzeCols cfg ws row cols (hc, dc, ec)))"

definition analyzeRow :: "excelConfig \<Rightarrow> worksheet \<Rightarrow> nat \<Rightarrow> jsError + rowAnalysis" where
  "analyzeRow cfg ws row =
     (case analyzeCols cfg ws row [0 ..< Suc (range_e_c ws)] (0, 0, 0) of
        Inl e \<Rightarrow> Inl e
      | Inr (hc, dc, ec) \<Rightarrow>
          Inr \<lparr> isHeaderRow = (hc \<ge> 2),
                isDataRow = (dc > 0),
                isEmpty = (ec = range_e_c ws + 1),
                consecutiveEmptyRows = countConsecutiveEmptyRows ws row,
                headerCount = hc,
                dataCount = dc \<rparr>)"

section \<open>Header extraction (HeaderAnalyzer)\<close>

text \<open>The column loop of \<open>getHeaders\<close>.\<close>

fun collectHeaders ::
  "excelConfig \<Rightarrow> worksheet \<Rightarrow> nat \<Rightarrow> nat list \<Rightarrow> header list \<Rightarrow> jsError + header list"
where
  "collectHeaders cfg ws row [] hs = Inr hs"
| "collectHeaders cfg ws row (col # cols) hs =
     (case cells ws row col of
        VStr s \<Rightarrow>
          if s \<noteq> [] \<and> length (trim s) > 0 then
            (case testCustomPatterns (customPatterns cfg) s of
               Inl e \<Rightarrow> Inl e
             | Inr custom \<Rightarrow>
                 if (if custom then True else hasLetter s)
                 then collectHeaders cfg ws row cols
                        (hs @ [\<lparr> hrow = row, column = col, hvalue = trim s, hlevel = 0 \<rparr>])
                 else collectHeaders cfg ws row cols hs)
          else collectHeaders cfg ws row cols hs
      | _ \<Rightarrow> collectHeaders cfg ws row cols hs)"

definition applyMerge :: "mergeRange \<Rightarrow> header list \<Rightarrow> header list" where
  "applyMerge m hs =
     map (\<lambda>h. if column h \<ge> ms_c m \<and> column h \<le> me_c m \<and> hrow h = ms_r m
               then h\<lparr> hlevel := int (me_r m) - int (ms_r m) \<rparr>
               else h) hs"

definition adjustForMergedCells :: "worksheet \<Rightarrow> header list \<Rightarrow> header list" where
  "adjustForMergedCells ws hs = fold applyMerge (merges ws) hs"

definition getHeaders :: "excelConfig \<Rightarrow> worksheet \<Rightarrow> nat \<Rightarrow> jsError + header list" where
  "getHeaders cfg ws row =
     (case collectHeaders cfg ws row [0 ..< Suc (range_e_c ws)] [] of
        Inl e \<Rightarrow> Inl e
      | Inr hs \<Rightarrow> Inr (adjustForMergedCells ws hs))"

section \<open>Table construction\<close>

definition emptyMetadata :: tableMetadata where
  "emptyMetadata = \<lparr> indentation = None, patternType = None, contentType = None,
                     relationshipType = None \<rparr>"

definition initializeTable :: "excelConfig \<Rightarrow> worksheet \<Rightarrow> nat \<Rightarrow> nat \<Rightarrow> jsError + table" where
  "initializeTable cfg ws row n =
     (case getHeaders cfg ws row of
        Inl e \<Rightarrow> Inl e
      | Inr hs \<Rightarrow>
          Inr \<lparr> tid = n, startRow = row, endRow = row, headers = hs, dataRows = [],
                children = [], level = 0, parent = None, metadata = emptyMetadata,
                rowCount = None \<rparr>)"

text \<open>Writing a key of a row object: an existing key keeps its place.\<close>

fun setKey :: "string \<Rightarrow> cellValue \<Rightarrow> rowData \<Rightarrow> rowData" where
  "setKey k v [] = [(k, v)]"
| "setKey k v ((k', v') # kvs) = (if k = k' then (k, v) # kvs else (k', v') # setKey k v kvs)"

definition extractRowData :: "worksheet \<Rightarrow> nat \<Rightarrow> header list \<Rightarrow> rowData" where
  "extractRowData ws row hs =
     fold (\<lambda>h rowData.
             (case getCellValue ws row (column h) of
                VNull \<Rightarrow> rowData
              | v \<Rightarrow> setKey (hvalue h) v rowData)) hs []"

definition getTableIndentation :: "table \<Rightarrow> nat" where
  "getTableIndentation t = (case headers t of [] \<Rightarrow> 0 | h # _ \<Rightarrow> column h)"

definition isNumber :: "cellValue \<Rightarrow> bool" where
  "isNumber v = (case v of VNum n \<Rightarrow> True | _ \<Rightarrow> False)"

definition identifyContentType :: "table \<Rightarrow> string" where
  "identifyContentType t =
     (case dataRows t of
        [] \<Rightarrow> ''unknown''
      | firstRow # _ \<Rightarrow> if list_ex (\<lambda>kv. isNumber (snd kv)) firstRow then ''numeric'' else ''text'')"

definition extractTableMetadata :: "table \<Rightarrow> tableMetadata" where
  "extractTableMetadata t =
     \<lparr> indentation = Some (getTableIndentation t),
       patternType = Some ''default'',
       contentType = Some (identifyContentType t),
       relationshipType = None \<rparr>"

definition finalizeTable :: "table \<Rightarrow> nat \<Rightarrow> table" where
  "finalizeTable t e =
     (let t1 = t\<lparr> endRow := e \<rparr>;
          t2 = t1\<lparr> rowCount := Some (length (dataRows t1)) \<rparr>
      in t2\<lparr> metadata := extractTableMetadata t2 \<rparr>)"

text \<open>
  The state of the row loop of \<open>findBasicTables\<close>: the tables pushed so far, the open
  table \<open>currentTable\<close> and the counter \<open>tableId\<close>.
\<close>

type_synonym scanState = "table list \<times> table option \<times> nat"

definition scanRow :: "excelConfig \<Rightarrow> worksheet \<Rightarrow> nat \<Rightarrow> scanState \<Rightarrow> jsError + scanState" where
  "scanRow cfg ws row st =
     (case st of (tables, currentTable, tableId) \<Rightarrow>
      (case analyzeRow cfg ws row of
         Inl e \<Rightarrow> Inl e
       | Inr ra \<Rightarrow>
           if isHeaderRow ra \<and> currentTable = None then
             (case initializeTable cfg ws row tableId of
                Inl e \<Rightarrow> Inl e
              | Inr t \<Rightarrow> Inr (tables, Some t, Suc tableId))
           else
             (case currentTable of
                None \<Rightarrow> Inr (tables, None, tableId)
              | Some t \<Rightarrow>
                  if isEmpty ra \<and> consecutiveEmptyRows ra > 1 then
                    Inr (tables @ [finalizeTable t (row - 1)], None, tableId)
                  else if \<not> isEmpty ra then
                    (let t1 = t\<lparr> endRow := row \<rparr>;
                         t2 = (if isDataRow ra
                               then t1\<lparr> dataRows := dataRows t1 @ [extractRowData ws row (headers t1)] \<rparr>
                               else t1)
                     in Inr (tables, Some t2, tableId))
                  else Inr (tables, Some t, tableId))))"

fun scanRows :: "excelConfig \<Rightarrow> worksheet \<Rightarrow> nat list \<Rightarrow> scanState \<Rightarrow> jsError + scanState" where
  "scanRows cfg ws [] st = Inr st"
| "scanRows cfg ws (row # rows) st =
     (case scanRow cfg ws row st of
        Inl e \<Rightarrow> Inl e
      | Inr st' \<Rightarrow> scanRows cfg ws rows st')"

text \<open>The body of the \<open>try\<close> block of \<open>findBasicTables\<close>.\<close>

definition findBasicTables_try :: "excelConfig \<Rightarrow> worksheet \<Rightarrow> jsError + table list" where
  "findBasicTables_try cfg ws =
     (case scanRows cfg ws [0 ..< Suc (range_e_r ws)] ([], None, 0) of
        Inl e \<Rightarrow> Inl e
      | Inr (tables, currentTable, tableId) \<Rightarrow>
          (case currentTable of
             Some t \<Rightarrow> Inr (tables @ [finalizeTable t (range_e_r ws)])
           | None \<Rightarrow> Inr tables))"

section \<open>Error log and the guarded phases\<close>

record errorInfo =
  errorId :: string
  errorContext :: string
  errorMessage :: string
  errorStack :: string
  timestamp :: string

text \<open>
  The mutable fields of the parser object that the phases write: the error log, the
  counters of \<open>performanceMetrics\<close>, the stored result \<open>tableStructures\<close> (a list of
  references with the store they point into), and \<open>envReads\<close>, the number of values
  drawn so far from the environment below.
\<close>

record parserState =
  errors :: "errorInfo list"
  errorsEncountered :: nat
  tablesProcessed :: nat
  tableStructures :: "nat list \<times> table list"
  envReads :: nat

text \<open>
  What the run-time environment supplies: the identifier returned by the n-th call of
  \<open>uuidv4()\<close>, the text of \<open>new Date().toISOString()\<close> at that call, the stack trace
  the engine attaches to an error created with a given message, and the built-in
  \<open>isNaN\<close> on strings (the number grammar of the language).
\<close>

record environment =
  uuidv4 :: "nat \<Rightarrow> string"
  nowISOString :: "nat \<Rightarrow> string"
  stackTrace :: "string \<Rightarrow> string"
  isNaN :: "string \<Rightarrow> bool"

definition mkError :: "environment \<Rightarrow> string \<Rightarrow> jsError" where
  "mkError env msg = \<lparr> message = msg, stack = stackTrace env msg \<rparr>"

definition strictMode :: "excelConfig \<Rightarrow> bool" where
  "strictMode cfg = (case errorHandling cfg of None \<Rightarrow> False | Some eh \<Rightarrow> throwErrors eh)"

definition logError :: "environment \<Rightarrow> string \<Rightarrow> jsError \<Rightarrow> parserState \<Rightarrow> parserState" where
  "logError env ctx error st =
     st\<lparr> errors := errors st @
            [\<lparr> errorId = uuidv4 env (envReads st), errorContext = ctx,
               errorMessage = message error, errorStack = stack error,
               timestamp = nowISOString env (envReads st) \<rparr>],
         errorsEncountered := errorsEncountered st + 1,
         envReads := envReads st + 1 \<rparr>"

text \<open>\<open>handleError\<close>: \<open>Inl\<close> is the error thrown again, \<open>Inr ()\<close> a normal return.\<close>

definition handleError ::
  "environment \<Rightarrow> excelConfig \<Rightarrow> string \<Rightarrow> jsError \<Rightarrow> parserState \<Rightarrow> (jsError + unit) \<times> parserState"
where
  "handleError env cfg ctx error st =
     (let st' = logError env ctx error st
      in if strictMode cfg then (Inl error, st') else (Inr (), st'))"

text \<open>
  A \<open>catch\<close> block of the form \<open>this.handleError(ctx, error); return fallback;\<close>.
\<close>

definition catchPhase ::
  "environment \<Rightarrow> excelConfig \<Rightarrow> string \<Rightarrow> 'a \<Rightarrow> jsError \<Rightarrow> parserState \<Rightarrow> (jsError + 'a) \<times> parserState"
where
  "catchPhase env cfg ctx fallback error st =
     (case handleError env cfg ctx error st of
        (Inl e, st') \<Rightarrow> (Inl e, st')
      | (Inr u, st') \<Rightarrow> (Inr fallback, st'))"

definition findBasicTables ::
  "environment \<Rightarrow> excelConfig \<Rightarrow> worksheet \<Rightarrow> parserState \<Rightarrow> (jsError + table list) \<times> parserState"
where
  "findBasicTables env cfg ws st =
     (case findBasicTables_try cfg ws of
        Inr tables \<Rightarrow> (Inr tables, st)
      | Inl error \<Rightarrow> catchPhase env cfg ''basic-table-detection'' [] error st)"

section \<open>Row kinds and sample sheets\<close>

text \<open>The classification of a row by \<open>analyzeRow\<close>, when the analysis returns.\<close>

definition headerRowAt :: "excelConfig \<Rightarrow> worksheet \<Rightarrow> nat \<Rightarrow> bool" where
  "headerRowAt cfg ws row =
     (case analyzeRow cfg ws row of Inl e \<Rightarrow> False | Inr ra \<Rightarrow> isHeaderRow ra)"

definition nonHeaderRowAt :: "excelConfig \<Rightarrow> worksheet \<Rightarrow> nat \<Rightarrow> bool" where
  "nonHeaderRowAt cfg ws row =
     (case analyzeRow cfg ws row of Inl e \<Rightarrow> False | Inr ra \<Rightarrow> \<not> isHeaderRow ra)"

definition dataRowAt :: "excelConfig \<Rightarrow> worksheet \<Rightarrow> nat \<Rightarrow> bool" where
  "dataRowAt cfg ws row =
     (case analyzeRow cfg ws row of Inl e \<Rightarrow> False | Inr ra \<Rightarrow> isDataRow ra)"

definition emptyRowAt :: "excelConfig \<Rightarrow> worksheet \<Rightarrow> nat \<Rightarrow> bool" where
  "emptyRowAt cfg ws row =
     (case analyzeRow cfg ws row of Inl e \<Rightarrow> False | Inr ra \<Rightarrow> isEmpty ra)"

text \<open>
  A worksheet given by its rows of cell values, as \<open>XLSX.utils.aoa_to_sheet\<close> builds one:
  the range ends at the last row and at the last column of the longest row.
\<close>

definition aoa_to_sheet :: "cellValue list list \<Rightarrow> worksheet" where
  "aoa_to_sheet rows =
     \<lparr> cells = (\<lambda>r c. if r < length rows \<and> c < length (rows ! r) then rows ! r ! c else VNull),
       range_e_r = length rows - 1,
       range_e_c = fold max (map length rows) 0 - 1,
       merges = [] \<rparr>"

text \<open>
  A configuration without custom patterns, with the similarity threshold 0.6 and lenient
  error handling; the similarity function stays a parameter.
\<close>

definition lenientConfig :: "(string \<Rightarrow> string \<Rightarrow> real) \<Rightarrow> excelConfig" where
  "lenientConfig sim =
     \<lparr> customPatterns = [],
       headerDetection = Some \<lparr> fuzzyMatchThreshold = Some (6 / 10) \<rparr>,
       errorHandling = Some \<lparr> throwErrors = False \<rparr>,
       compareTwoStrings = sim \<rparr>"

text \<open>The sheet of the scenario: a header row, one data row, two empty rows.\<close>

definition scenarioSheet :: worksheet where
  "scenarioSheet =
     aoa_to_sheet
       [[VStr ''Product Name'', VStr ''Barcode'', VStr ''External Code'', VStr ''QTY''],
        [VStr ''Widget'', VStr ''123'', VStr ''EXT1'', VStr ''5''],
        [],
        []]"

section \<open>Hierarchy analysis\<close>

definition isChildTable :: "table \<Rightarrow> table \<Rightarrow> bool" where
  "isChildTable parentTable potentialChild =
     (if startRow potentialChild = endRow parentTable + 1 then
        (let parentIndent = (case headers parentTable of [] \<Rightarrow> 0 | h # _ \<Rightarrow> column h);
             childIndent = (case headers potentialChild of [] \<Rightarrow> 0 | h # _ \<Rightarrow> column h)
         in childIndent > parentIndent)
      else False)"

text \<open>
  The inner loop of \<open>analyzeTableHierarchy\<close> for the table at index \<open>i\<close>, over the later
  indices \<open>j\<close>. The state is the store and the set \<open>processedIndices\<close>.
\<close>

fun claimChildren :: "nat \<Rightarrow> nat list \<Rightarrow> table list \<times> nat set \<Rightarrow> table list \<times> nat set" where
  "claimChildren i [] (store, processed) = (store, processed)"
| "claimChildren i (j # js) (store, processed) =
     (if j \<in> processed then claimChildren i js (store, processed)
      else if isChildTable (store ! i) (store ! j) then
        (let store1 = store[j := (store ! j)\<lparr> level := level (store ! i) + 1, parent := Some i \<rparr>];
             store2 = store1[i := (store1 ! i)\<lparr> children := children (store1 ! i) @ [j] \<rparr>]
         in claimChildren i js (store2, insert j processed))
      else claimChildren i js (store, processed))"

text \<open>
  The outer loop; the state is the store, \<open>processedIndices\<close> and the list
  \<open>hierarchicalTables\<close> (as indices of the store).
\<close>

fun assignParents ::
  "nat list \<Rightarrow> table list \<times> nat set \<times> nat list \<Rightarrow> table list \<times> nat set \<times> nat list"
where
  "assignParents [] st = st"
| "assignParents (i # is) (store, processed, hier) =
     (if i \<in> processed then assignParents is (store, processed, hier)
      else
        (let store1 = store[i := (store ! i)\<lparr> children := [], level := 0, parent := None \<rparr>];
             (store2, processed2) = claimChildren i [Suc i ..< length store] (store1, processed)
         in assignParents is (store2, insert i processed2, hier @ [i])))"

definition labelRelationship :: "table \<Rightarrow> table" where
  "labelRelationship t =
     t\<lparr> metadata := (metadata t)\<lparr> relationshipType :=
          Some (if children t \<noteq> [] then ''parent''
                else if parent t \<noteq> None then ''child''
                else ''independent'') \<rparr> \<rparr>"

definition analyzeTableRelationships :: "nat list \<Rightarrow> table list \<Rightarrow> table list" where
  "analyzeTableRelationships refs store =
     fold (\<lambda>i st. st[i := labelRelationship (st ! i)]) refs store"

text \<open>
  The depth-first walk of \<open>validateTableHierarchy\<close>, with the pending calls of
  \<open>validateTable\<close> as a list: the first pending table is visited, then its children, then
  the rest. The result is the identifier at which a revisit is detected. A reference is
  always to a table of the store; an index outside the store is passed over.
\<close>

function validateTables :: "table list \<Rightarrow> nat set \<Rightarrow> nat list \<Rightarrow> nat option" where
  "validateTables store visited [] = None"
| "validateTables store visited (i # pending) =
     (if i < length store then
        (if tid (store ! i) \<in> visited then Some (tid (store ! i))
         else validateTables store (insert (tid (store ! i)) visited)
                (children (store ! i) @ pending))
      else validateTables store visited pending)"
  by pat_completeness auto
termination
proof (relation "measures [\<lambda>(store, visited, pending). card (tid ` set store - visited),
                          \<lambda>(store, visited, pending). length pending]")
  show "wf (measures [\<lambda>(store, visited, pending). card (tid ` set store - visited),
                      \<lambda>(store, visited, pending). length pending])"
    by simp
next
  fix store :: "table list" and visited :: "nat set" and i :: nat and pending :: "nat list"
  assume "i < length store" and new: "tid (store ! i) \<notin> visited"
  then have "tid (store ! i) \<in> tid ` set store - visited" by simp
  then have "card (tid ` set store - insert (tid (store ! i)) visited)
               < card (tid ` set store - visited)"
    by (metis Diff_insert card_Diff1_less finite_Diff finite_imageI finite_set)
  then show "((store, insert (tid (store ! i)) visited, children (store ! i) @ pending),
              (store, visited, i # pending))
             \<in> measures [\<lambda>(store, visited, pending). card (tid ` set store - visited),
                          \<lambda>(store, visited, pending). length pending]"
    by simp
next
  fix store :: "table list" and visited :: "nat set" and i :: nat and pending :: "nat list"
  show "((store, visited, pending), (store, visited, i # pending))
          \<in> measures [\<lambda>(store, visited, pending). card (tid ` set store - visited),
                       \<lambda>(store, visited, pending). length pending]"
    by simp
qed

fun showNat :: "nat \<Rightarrow> string" where
  "showNat n = (if n < 10 then [digitChars ! n] else showNat (n div 10) @ [digitChars ! (n mod 10)])"

definition tableIdString :: "nat \<Rightarrow> string" where
  "tableIdString n = ''table_'' @ showNat n"

definition validateTableHierarchy :: "environment \<Rightarrow> nat list \<Rightarrow> table list \<Rightarrow> jsError + unit" where
  "validateTableHierarchy env refs store =
     (case validateTables store {} refs of
        Some n \<Rightarrow>
          Inl (mkError env (''Circular reference detected in table hierarchy: '' @ tableIdString n))
      | None \<Rightarrow> Inr ())"

text \<open>
  The \<open>try\<close> block of \<open>analyzeTableHierarchy\<close>. The tables are modified in place, so the
  store is returned with either outcome.
\<close>

definition analyzeTableHierarchy_try ::
  "environment \<Rightarrow> table list \<Rightarrow> (jsError + nat list) \<times> table list"
where
  "analyzeTableHierarchy_try env tables =
     (case assignParents [0 ..< length tables] (tables, {}, []) of
        (store, processed, hier) \<Rightarrow>
          (let store' = analyzeTableRelationships hier store in
           case validateTableHierarchy env hier store' of
             Inl e \<Rightarrow> (Inl e, store')
           | Inr u \<Rightarrow> (Inr hier, store')))"

text \<open>
  \<open>analyzeTableHierarchy\<close>: the result is a list of references with the store; the
  fallback \<open>return tables\<close> is every table of the input list.
\<close>

definition analyzeTableHierarchy ::
  "environment \<Rightarrow> excelConfig \<Rightarrow> table list \<Rightarrow> parserState \<Rightarrow>
     (jsError + nat list \<times> table list) \<times> parserState"
where
  "analyzeTableHierarchy env cfg tables st =
     (case analyzeTableHierarchy_try env tables of
        (Inr hier, store) \<Rightarrow> (Inr (hier, store), st)
      | (Inl error, store) \<Rightarrow>
          catchPhase env cfg ''hierarchy-analysis'' ([0 ..< length tables], store) error st)"

section \<open>Grouping and merging related tables\<close>

text \<open>
  \<open>areHeadersSimilar\<close>: the two texts are compared first, then the threshold is read from
  the configuration. Reading it from a missing \<open>headerDetection\<close> section throws; a
  missing threshold makes the comparison false.
\<close>

definition areHeadersSimilar ::
  "environment \<Rightarrow> excelConfig \<Rightarrow> header \<Rightarrow> header \<Rightarrow> jsError + bool"
where
  "areHeadersSimilar env cfg header1 header2 =
     (let score = compareTwoStrings cfg (toLowerCase (hvalue header1)) (toLowerCase (hvalue header2))
      in case headerDetection cfg of
           None \<Rightarrow>
             Inl (mkError env ''Cannot read properties of undefined (reading 'fuzzyMatchThreshold')'')
         | Some detection \<Rightarrow>
             (case fuzzyMatchThreshold detection of
                None \<Rightarrow> Inr False
              | Some threshold \<Rightarrow> Inr (score > threshold)))"

text \<open>The two nested \<open>forEach\<close> loops of \<open>areTablesRelated\<close> that count the similar pairs.\<close>

fun countSimilarTo ::
  "environment \<Rightarrow> excelConfig \<Rightarrow> header \<Rightarrow> header list \<Rightarrow> nat \<Rightarrow> jsError + nat"
where
  "countSimilarTo env cfg h1 [] matchCount = Inr matchCount"
| "countSimilarTo env cfg h1 (h2 # hs2) matchCount =
     (case areHeadersSimilar env cfg h1 h2 of
        Inl e \<Rightarrow> Inl e
      | Inr similar \<Rightarrow>
          countSimilarTo env cfg h1 hs2 (if similar then Suc matchCount else matchCount))"

fun countSimilarPairs ::
  "environment \<Rightarrow> excelConfig \<Rightarrow> header list \<Rightarrow> header list \<Rightarrow> nat \<Rightarrow> jsError + nat"
where
  "countSimilarPairs env cfg [] hs2 matchCount = Inr matchCount"
| "countSimilarPairs env cfg (h1 # hs1) hs2 matchCount =
     (case countSimilarTo env cfg h1 hs2 matchCount of
        Inl e \<Rightarrow> Inl e
      | Inr matchCount' \<Rightarrow> countSimilarPairs env cfg hs1 hs2 matchCount')"

definition areTablesRelated ::
  "environment \<Rightarrow> excelConfig \<Rightarrow> table \<Rightarrow> table \<Rightarrow> jsError + bool"
where
  "areTablesRelated env cfg table1 table2 =
     (if \<bar>int (startRow table2) - int (endRow table1)\<bar> > 5 then Inr False
      else
        (case countSimilarPairs env cfg (headers table1) (headers table2) 0 of
           Inl e \<Rightarrow> Inl e
         | Inr matchCount \<Rightarrow>
             (let threshold = real (min (length (headers table1)) (length (headers table2))) * (5 / 10)
              in Inr (real matchCount \<ge> threshold))))"

text \<open>
  \<open>groupRelatedTables\<close>. \<open>refs\<close> is the array \<open>tables\<close> (references into the store);
  \<open>used\<close> holds positions of that array; a group is a list of references.
\<close>

fun groupWith ::
  "environment \<Rightarrow> excelConfig \<Rightarrow> table list \<Rightarrow> nat list \<Rightarrow> nat \<Rightarrow> nat list \<Rightarrow>
     nat set \<times> nat list \<Rightarrow> jsError + nat set \<times> nat list"
where
  "groupWith env cfg store refs i [] (used, grp) = Inr (used, grp)"
| "groupWith env cfg store refs i (j # js) (used, grp) =
     (if j \<in> used then groupWith env cfg store refs i js (used, grp)
      else
        (case areTablesRelated env cfg (store ! (refs ! i)) (store ! (refs ! j)) of
           Inl e \<Rightarrow> Inl e
         | Inr related \<Rightarrow>
             if related then groupWith env cfg store refs i js (insert j used, grp @ [refs ! j])
             else groupWith env cfg store refs i js (used, grp)))"

fun groupFrom ::
  "environment \<Rightarrow> excelConfig \<Rightarrow> table list \<Rightarrow> nat list \<Rightarrow> nat list \<Rightarrow>
     nat set \<times> nat list list \<Rightarrow> jsError + nat set \<times> nat list list"
where
  "groupFrom env cfg store refs [] (used, groups) = Inr (used, groups)"
| "groupFrom env cfg store refs (i # is) (used, groups) =
     (if i \<in> used then groupFrom env cfg store refs is (used, groups)
      else
        (case groupWith env cfg store refs i [Suc i ..< length refs] (insert i used, [refs ! i]) of
           Inl e \<Rightarrow> Inl e
         | Inr (used', grp) \<Rightarrow> groupFrom env cfg store refs is (used', groups @ [grp])))"

definition groupRelatedTables ::
  "environment \<Rightarrow> excelConfig \<Rightarrow> table list \<Rightarrow> nat list \<Rightarrow> jsError + nat list list"
where
  "groupRelatedTables env cfg store refs =
     (case groupFrom env cfg store refs [0 ..< length refs] ({}, []) of
        Inl e \<Rightarrow> Inl e
      | Inr (used, groups) \<Rightarrow> Inr groups)"

text \<open>\<open>merged.some(h1 => this.areHeadersSimilar(h1, h2))\<close>\<close>

fun someSimilar ::
  "environment \<Rightarrow> excelConfig \<Rightarrow> header list \<Rightarrow> header \<Rightarrow> jsError + bool"
where
  "someSimilar env cfg [] h2 = Inr False"
| "someSimilar env cfg (h1 # hs1) h2 =
     (case areHeadersSimilar env cfg h1 h2 of
        Inl e \<Rightarrow> Inl e
      | Inr similar \<Rightarrow> if similar then Inr True else someSimilar env cfg hs1 h2)"

fun mergeHeaders ::
  "environment \<Rightarrow> excelConfig \<Rightarrow> header list \<Rightarrow> header list \<Rightarrow> jsError + header list"
where
  "mergeHeaders env cfg merged [] = Inr merged"
| "mergeHeaders env cfg merged (h2 # hs2) =
     (case someSimilar env cfg merged h2 of
        Inl e \<Rightarrow> Inl e
      | Inr exists \<Rightarrow> mergeHeaders env cfg (if exists then merged else merged @ [h2]) hs2)"

text \<open>
  The loop of \<open>mergeTables\<close> over the members after the first: the base table (the
  reference \<open>base\<close>) is modified in the store.
\<close>

fun mergeInto ::
  "environment \<Rightarrow> excelConfig \<Rightarrow> nat \<Rightarrow> nat list \<Rightarrow> table list \<Rightarrow> (jsError + nat) \<times> table list"
where
  "mergeInto env cfg base [] store = (Inr base, store)"
| "mergeInto env cfg base (m # ms) store =
     (case mergeHeaders env cfg (headers (store ! base)) (headers (store ! m)) of
        Inl e \<Rightarrow> (Inl e, store)
      | Inr hs \<Rightarrow>
          mergeInto env cfg base ms
            (store[base := (store ! base)\<lparr>
               headers := hs,
               dataRows := dataRows (store ! base) @ dataRows (store ! m),
               endRow := max (endRow (store ! base)) (endRow (store ! m)) \<rparr>]))"

text \<open>
  \<open>mergeTables\<close>. A group is never empty; for an empty one the source returns
  \<open>undefined\<close>, on which the next step of the phase throws.
\<close>

definition mergeTables ::
  "environment \<Rightarrow> excelConfig \<Rightarrow> nat list \<Rightarrow> table list \<Rightarrow> (jsError + nat) \<times> table list"
where
  "mergeTables env cfg grp store =
     (case grp of
        [] \<Rightarrow> (Inl (mkError env ''Cannot read properties of undefined (reading 'dataRows')''), store)
      | [t] \<Rightarrow> (Inr t, store)
      | base # rest \<Rightarrow> mergeInto env cfg base rest store)"

text \<open>\<open>row[key]\<close>: the value of a key of a row object, \<open>undefined\<close> when the key is missing.\<close>

definition getKey :: "rowData \<Rightarrow> string \<Rightarrow> cellValue" where
  "getKey row k = (case map_of row k of None \<Rightarrow> VNull | Some v \<Rightarrow> v)"

text \<open>
  The predicate of \<open>findMatchingRow\<close>. With no keys the quotient is \<open>0 / 0\<close>, which is not
  greater than 0.7. The quotient of the two counts is taken exactly; for counts of this
  size the comparison of the rounded quotient with the literal 0.7 gives the same answer.
\<close>

definition rowMatches :: "rowData \<Rightarrow> rowData \<Rightarrow> bool" where
  "rowMatches row newRow =
     (let keys = map fst newRow;
          matchScore = length (filter (\<lambda>key. getKey row key = getKey newRow key) keys)
      in if length keys = 0 then False
         else real matchScore / real (length keys) > 7 / 10)"

definition findMatchingRow :: "rowData list \<Rightarrow> rowData \<Rightarrow> rowData option" where
  "findMatchingRow rows newRow = find (\<lambda>row. rowMatches row newRow) rows"

definition uniqueRowsOf :: "rowData list \<Rightarrow> rowData list" where
  "uniqueRowsOf rows =
     fold (\<lambda>row uniqueRows.
             if findMatchingRow uniqueRows row = None then uniqueRows @ [row] else uniqueRows)
          rows []"

definition processTableData :: "table \<Rightarrow> table" where
  "processTableData t = t\<lparr> dataRows := uniqueRowsOf (dataRows t) \<rparr>"

text \<open>\<open>tableGroups.map(group => this.mergeTables(group))\<close>\<close>

fun mergeGroups ::
  "environment \<Rightarrow> excelConfig \<Rightarrow> nat list list \<Rightarrow> table list \<Rightarrow> (jsError + nat list) \<times> table list"
where
  "mergeGroups env cfg [] store = (Inr [], store)"
| "mergeGroups env cfg (grp # groups) store =
     (case mergeTables env cfg grp store of
        (Inl e, store') \<Rightarrow> (Inl e, store')
      | (Inr t, store') \<Rightarrow>
          (case mergeGroups env cfg groups store' of
             (Inl e, store'') \<Rightarrow> (Inl e, store'')
           | (Inr ts, store'') \<Rightarrow> (Inr (t # ts), store'')))"

definition processAndMergeTables_try ::
  "environment \<Rightarrow> excelConfig \<Rightarrow> nat list \<Rightarrow> table list \<Rightarrow> (jsError + nat list) \<times> table list"
where
  "processAndMergeTables_try env cfg refs store =
     (case groupRelatedTables env cfg store refs of
        Inl e \<Rightarrow> (Inl e, store)
      | Inr tableGroups \<Rightarrow>
          (case mergeGroups env cfg tableGroups store of
             (Inl e, store') \<Rightarrow> (Inl e, store')
           | (Inr mergedTables, store') \<Rightarrow>
               (Inr mergedTables,
                fold (\<lambda>t st. st[t := processTableData (st ! t)]) mergedTables store')))"

definition processAndMergeTables ::
  "environment \<Rightarrow> excelConfig \<Rightarrow> nat list \<Rightarrow> table list \<Rightarrow> parserState \<Rightarrow>
     (jsError + nat list \<times> table list) \<times> parserState"
where
  "processAndMergeTables env cfg refs store st =
     (case processAndMergeTables_try env cfg refs store of
        (Inr mergedTables, store') \<Rightarrow> (Inr (mergedTables, store'), st)
      | (Inl error, store') \<Rightarrow> catchPhase env cfg ''table-merging'' (refs, store') error st)"

section \<open>The pipeline\<close>

definition findTableStructures ::
  "environment \<Rightarrow> excelConfig \<Rightarrow> worksheet \<Rightarrow> parserState \<Rightarrow>
     (jsError + nat list \<times> table list) \<times> parserState"
where
  "findTableStructures env cfg ws st =
     (case findBasicTables env cfg ws st of
        (Inl error, st1) \<Rightarrow> catchPhase env cfg ''table-detection'' ([], []) error st1
      | (Inr basicTables, st1) \<Rightarrow>
          (case analyzeTableHierarchy env cfg basicTables st1 of
             (Inl error, st2) \<Rightarrow> catchPhase env cfg ''table-detection'' ([], []) error st2
           | (Inr (hierarchicalTables, store), st2) \<Rightarrow>
               (case processAndMergeTables env cfg hierarchicalTables store st2 of
                  (Inl error, st3) \<Rightarrow> catchPhase env cfg ''table-detection'' ([], []) error st3
                | (Inr (mergedTables, store'), st3) \<Rightarrow>
                    (Inr (mergedTables, store'),
                     st3\<lparr> tableStructures := (mergedTables, store'),
                          tablesProcessed := length mergedTables \<rparr>))))"

section \<open>Data groups and column patterns\<close>

definition identifyDataGroup :: "string \<Rightarrow> string option" where
  "identifyDataGroup headerValue =
     (let lower = toLowerCase headerValue
      in if includesStr lower ''product'' then Some ''product''
         else if includesStr lower ''date'' then Some ''date''
         else None)"

text \<open>A prefix of the string matches the given character classes, one character each.\<close>

fun matchesPrefix :: "(char \<Rightarrow> bool) list \<Rightarrow> string \<Rightarrow> bool" where
  "matchesPrefix [] s = True"
| "matchesPrefix (p # ps) [] = False"
| "matchesPrefix (p # ps) (c # cs) = (p c \<and> matchesPrefix ps cs)"

definition isDigit :: "char \<Rightarrow> bool" where
  "isDigit c = (c \<in> set digitChars)"

text \<open>\<open>/^\d{4}-\d{2}-\d{2}/\<close>\<close>

definition isoDateLike :: "string \<Rightarrow> bool" where
  "isoDateLike s =
     matchesPrefix [isDigit, isDigit, isDigit, isDigit, (\<lambda>c. c = CHR ''-''), isDigit, isDigit,
                    (\<lambda>c. c = CHR ''-''), isDigit, isDigit] s"

text \<open>\<open>/^\d{2}\/\d{2}\/\d{4}/\<close>\<close>

definition usDateLike :: "string \<Rightarrow> bool" where
  "usDateLike s =
     matchesPrefix [isDigit, isDigit, (\<lambda>c. c = CHR ''/''), isDigit, isDigit,
                    (\<lambda>c. c = CHR ''/''), isDigit, isDigit, isDigit, isDigit] s"

text \<open>\<open>/^[A-Z0-9-]+$/\<close>\<close>

definition codeLike :: "string \<Rightarrow> bool" where
  "codeLike s =
     (s \<noteq> [] \<and> list_all (\<lambda>c. c \<in> set upperChars \<or> c \<in> set digitChars \<or> c = CHR ''-'') s)"

definition identifyValueType :: "cellValue \<Rightarrow> string" where
  "identifyValueType v =
     (case v of
        VNum n \<Rightarrow> ''number''
      | VBool b \<Rightarrow> ''boolean''
      | VStr s \<Rightarrow>
          if isoDateLike s then ''date''
          else if usDateLike s then ''date''
          else if codeLike s then ''code''
          else ''text''
      | VNull \<Rightarrow> ''text'')"

definition detectDateFormat :: "string \<Rightarrow> string option" where
  "detectDateFormat sample =
     (if isoDateLike sample then Some ''YYYY-MM-DD''
      else if usDateLike sample then Some ''MM/DD/YYYY''
      else None)"

definition showInt :: "int \<Rightarrow> string" where
  "showInt n = (if n < 0 then CHR ''-'' # showNat (nat (- n)) else showNat (nat n))"

record formatInfo =
  formatType :: string
  formatName :: "string option"

text \<open>
  \<open>detectFormat\<close> reads \<open>values[0].toString()\<close>, which throws when there is no first
  value or when it is \<open>null\<close> or \<open>undefined\<close>.
\<close>

definition detectFormat :: "environment \<Rightarrow> cellValue list \<Rightarrow> jsError + formatInfo" where
  "detectFormat env values =
     (case (case values of
              [] \<Rightarrow> None
            | VNull # _ \<Rightarrow> None
            | VStr s # _ \<Rightarrow> Some s
            | VNum n # _ \<Rightarrow> Some (showInt n)
            | VBool b # _ \<Rightarrow> Some (if b then ''true'' else ''false'')) of
        None \<Rightarrow> Inl (mkError env ''Cannot read properties of undefined (reading 'toString')'')
      | Some sample \<Rightarrow>
          (let dateFormat =
                 (if includesStr sample ''/'' \<or> includesStr sample ''-''
                  then detectDateFormat sample else None)
           in case dateFormat of
                Some f \<Rightarrow> Inr \<lparr> formatType = ''date'', formatName = Some f \<rparr>
              | None \<Rightarrow>
                  if \<not> isNaN env sample then
                    Inr \<lparr> formatType = ''number'', formatName = Some ''standard'' \<rparr>
                  else if codeLike sample then
                    Inr \<lparr> formatType = ''code'', formatName = Some ''alphanumeric'' \<rparr>
                  else Inr \<lparr> formatType = ''text'', formatName = None \<rparr>))"

record dataPattern =
  valueType :: string
  valueFormat :: formatInfo
  isUnique :: bool
  hasNulls :: bool
  examples :: "cellValue list"

text \<open>\<open>Boolean(v)\<close>, the predicate of \<open>filter(Boolean)\<close>.\<close>

definition truthy :: "cellValue \<Rightarrow> bool" where
  "truthy v =
     (case v of
        VNull \<Rightarrow> False
      | VStr s \<Rightarrow> s \<noteq> []
      | VNum n \<Rightarrow> n \<noteq> 0
      | VBool b \<Rightarrow> b)"

text \<open>The values of a column as \<open>extractDataPattern\<close> collects them.\<close>

definition columnValues :: "table \<Rightarrow> header \<Rightarrow> cellValue list" where
  "columnValues t h = filter truthy (map (\<lambda>row. getKey row (hvalue h)) (dataRows t))"

definition extractDataPattern ::
  "environment \<Rightarrow> table \<Rightarrow> header \<Rightarrow> jsError + dataPattern option"
where
  "extractDataPattern env t h =
     (let values = columnValues t h
      in if length values = 0 then Inr None
         else
           (case detectFormat env values of
              Inl e \<Rightarrow> Inl e
            | Inr f \<Rightarrow>
                Inr (Some \<lparr> valueType = identifyValueType (hd values),
                            valueFormat = f,
                            isUnique = (length (remdups values) = length values),
                            hasNulls = list_ex (\<lambda>v. v = VNull) values,
                            examples = take 3 values \<rparr>)))"

record location =
  locRow :: nat
  locCol :: nat
  locTable :: nat

record dataGroup =
  groupType :: string
  locations :: "location list"
  relatedData :: "(string \<times> cellValue list) list"
  patterns :: "dataPattern list"

text \<open>The map \<open>groups\<close>, in insertion order.\<close>

type_synonym dataGroups = "(string \<times> dataGroup) list"

fun updateGroup :: "string \<Rightarrow> (dataGroup \<Rightarrow> dataGroup) \<Rightarrow> dataGroups \<Rightarrow> dataGroups" where
  "updateGroup k f [] =
     [(k, f \<lparr> groupType = k, locations = [], relatedData = [], patterns = [] \<rparr>)]"
| "updateGroup k f ((k', g) # gs) =
     (if k = k' then (k', f g) # gs else (k', g) # updateGroup k f gs)"

text \<open>The body of the loop over the headers of one table.\<close>

fun groupHeaders ::
  "environment \<Rightarrow> table list \<Rightarrow> nat \<Rightarrow> header list \<Rightarrow> dataGroups \<Rightarrow> jsError + dataGroups"
where
  "groupHeaders env store t [] groups = Inr groups"
| "groupHeaders env store t (h # hs) groups =
     (case identifyDataGroup (hvalue h) of
        None \<Rightarrow> groupHeaders env store t hs groups
      | Some k \<Rightarrow>
          (let groups1 = updateGroup k
                 (\<lambda>g. g\<lparr> locations := locations g @
                          [\<lparr> locRow = startRow (store ! t), locCol = column h, locTable = t \<rparr>] \<rparr>)
                 groups
           in case extractDataPattern env (store ! t) h of
                Inl e \<Rightarrow> Inl e
              | Inr None \<Rightarrow> groupHeaders env store t hs groups1
              | Inr (Some p) \<Rightarrow>
                  groupHeaders env store t hs
                    (updateGroup k (\<lambda>g. g\<lparr> patterns := patterns g @ [p] \<rparr>) groups1)))"

fun groupTables ::
  "environment \<Rightarrow> table list \<Rightarrow> nat list \<Rightarrow> dataGroups \<Rightarrow> jsError + dataGroups"
where
  "groupTables env store [] groups = Inr groups"
| "groupTables env store (t # ts) groups =
     (case groupHeaders env store t (headers (store ! t)) groups of
        Inl e \<Rightarrow> Inl e
      | Inr groups' \<Rightarrow> groupTables env store ts groups')"

text \<open>
  The second loop calls \<open>this.findRelatedData\<close> for the first location it meets. The class
  defines no method of that name, so the call throws.
\<close>

definition relateLocations :: "environment \<Rightarrow> dataGroups \<Rightarrow> jsError + dataGroups" where
  "relateLocations env groups =
     (if list_ex (\<lambda>kg. locations (snd kg) \<noteq> []) groups
      then Inl (mkError env ''this.findRelatedData is not a function'')
      else Inr groups)"

definition findRelatedDataGroups_try ::
  "environment \<Rightarrow> nat list \<Rightarrow> table list \<Rightarrow> jsError + dataGroups"
where
  "findRelatedDataGroups_try env tables store =
     (case groupTables env store tables [] of
        Inl e \<Rightarrow> Inl e
      | Inr groups \<Rightarrow> relateLocations env groups)"

text \<open>\<open>findRelatedDataGroups\<close>: the call of \<open>findTableStructures\<close> stands before the \<open>try\<close>.\<close>

definition findRelatedDataGroups ::
  "environment \<Rightarrow> excelConfig \<Rightarrow> worksheet \<Rightarrow> parserState \<Rightarrow> (jsError + dataGroups) \<times> parserState"
where
  "findRelatedDataGroups env cfg ws st =
     (case findTableStructures env cfg ws st of
        (Inl error, st1) \<Rightarrow> (Inl error, st1)
      | (Inr (tables, store), st1) \<Rightarrow>
          (case findRelatedDataGroups_try env tables store of
             Inr groups \<Rightarrow> (Inr groups, st1)
           | Inl error \<Rightarrow> catchPhase env cfg ''data-grouping'' [] error st1))"

section \<open>Notions of the specification\<close>




text \<open>
  The first table of a list of candidates (in list order) that lies before table \<open>j\<close> and
  of which \<open>j\<close> is a child by \<open>isChildTable\<close>.
\<close>

definition firstParent :: "table list \<Rightarrow> nat list \<Rightarrow> nat \<Rightarrow> nat option" where
  "firstParent ts candidates j =
     find (\<lambda>i. i < j \<and> isChildTable (ts ! i) (ts ! j)) candidates"

text \<open>Two tables agree on every field that the hierarchy analysis never writes.\<close>

definition sameShape :: "table \<Rightarrow> table \<Rightarrow> bool" where
  "sameShape a b =
     (tid a = tid b \<and> startRow a = startRow b \<and> endRow a = endRow b \<and>
      headers a = headers b \<and> dataRows a = dataRows b \<and> metadata a = metadata b \<and>
      rowCount a = rowCount b)"

text \<open>
  The invariant of the outer loop of \<open>analyzeTableHierarchy\<close> before index \<open>k\<close>, for the
  input tables \<open>ts\<close>: the top-level tables so far are the indices below \<open>k\<close> without a
  first parent among them, the processed indices are those below \<open>k\<close> and the claimed
  ones, a claimed table points to its first parent, and a top-level table lists the
  tables it has claimed.
\<close>

definition hierInv :: "table list \<Rightarrow> nat \<Rightarrow> table list \<times> nat set \<times> nat list \<Rightarrow> bool" where
  "hierInv ts k st =
     (case st of (store, processed, hier) \<Rightarrow>
        length store = length ts \<and>
        (\<forall>x < length ts. sameShape (store ! x) (ts ! x)) \<and>
        hier = filter (\<lambda>x. firstParent ts hier x = None) [0 ..< k] \<and>
        processed = {0 ..< k} \<union> {j. j < length ts \<and> firstParent ts hier j \<noteq> None} \<and>
        (\<forall>j < length ts. \<forall>i. firstParent ts hier j = Some i \<longrightarrow>
            parent (store ! j) = Some i \<and> level (store ! j) = 1) \<and>
        (\<forall>i \<in> set hier.
            parent (store ! i) = None \<and> level (store ! i) = 0 \<and>
            children (store ! i) =
              filter (\<lambda>j. firstParent ts hier j = Some i) [Suc i ..< length ts]) \<and>
        (\<forall>x < length ts. x \<notin> set hier \<longrightarrow> children (store ! x) = children (ts ! x)))"

text \<open>The tables as \<open>analyzeTableHierarchy\<close> leaves them (it modifies them in place).\<close>

definition tablesAfterHierarchy :: "environment \<Rightarrow> table list \<Rightarrow> table list" where
  "tablesAfterHierarchy env ts = snd (analyzeTableHierarchy_try env ts)"

text \<open>Table \<open>b\<close> starts at least two rows below the end of table \<open>a\<close>.\<close>

definition rowGap :: "table \<Rightarrow> table \<Rightarrow> bool" where
  "rowGap a b = (endRow a + 2 \<le> startRow b)"

text \<open>
  The invariant of the row loop of \<open>findBasicTables\<close> before row \<open>r\<close>: the finished
  tables carry the identifiers 0, 1, ... in order, each ends at least two rows before the
  next one starts and before \<open>r\<close>, the open table (if any) started before \<open>r\<close> and carries
  the next identifier, and no table has children.
\<close>

definition scanInv :: "nat \<Rightarrow> scanState \<Rightarrow> bool" where
  "scanInv r st =
     (case st of (tables, currentTable, tableId) \<Rightarrow>
        map tid tables = [0 ..< length tables] \<and>
        sorted_wrt rowGap tables \<and>
        (\<forall>t \<in> set tables. endRow t + 2 \<le> r \<and> children t = []) \<and>
        (case currentTable of
           None \<Rightarrow> tableId = length tables
         | Some c \<Rightarrow>
             tableId = Suc (length tables) \<and> tid c = length tables \<and> startRow c < r \<and>
             children c = [] \<and> (\<forall>t \<in> set tables. rowGap t c)))"



section \<open>Sample inputs\<close>

definition initialState :: parserState where
  "initialState =
     \<lparr> errors = [], errorsEncountered = 0, tablesProcessed = 0, tableStructures = ([], []),
       envReads = 0 \<rparr>"

definition sampleEnvironment :: environment where
  "sampleEnvironment =
     \<lparr> uuidv4 = (\<lambda>n. ''uuid-'' @ showNat n), nowISOString = (\<lambda>n. ''time-'' @ showNat n),
       stackTrace = (\<lambda>m. ''at '' @ m), isNaN = (\<lambda>s. \<not> (s \<noteq> [] \<and> list_all isDigit s)) \<rparr>"

text \<open>A similarity function that tells equal texts from different ones.\<close>

definition exactSimilarity :: "string \<Rightarrow> string \<Rightarrow> real" where
  "exactSimilarity a b = (if a = b then 1 else 0)"

text \<open>
  A header row, a data row, a run of exactly two empty rows, then a further data row.
\<close>

definition twoBlankRowsSheet :: worksheet where
  "twoBlankRowsSheet =
     aoa_to_sheet
       [[VStr ''Name'', VStr ''Qty''],
        [VStr ''Widget'', VNum 5],
        [],
        [],
        [VStr ''Gadget'', VNum 7]]"

definition twoBlankRowsTable :: table where
  "twoBlankRowsTable =
     \<lparr> tid = 0, startRow = 0, endRow = 4,
       headers =
         [\<lparr> hrow = 0, column = 0, hvalue = ''Name'', hlevel = 0 \<rparr>,
          \<lparr> hrow = 0, column = 1, hvalue = ''Qty'', hlevel = 0 \<rparr>],
       dataRows =
         [[(''Name'', VStr ''Widget''), (''Qty'', VNum 5)],
          [(''Name'', VStr ''Gadget''), (''Qty'', VNum 7)]],
       children = [], level = 0, parent = None,
       metadata = \<lparr> indentation = Some 0, patternType = Some ''default'',
                    contentType = Some ''numeric'', relationshipType = None \<rparr>,
       rowCount = Some 2 \<rparr>"

text \<open>The same sheet with a run of three empty rows.\<close>

definition threeBlankRowsSheet :: worksheet where
  "threeBlankRowsSheet =
     aoa_to_sheet
       [[VStr ''Name'', VStr ''Qty''],
        [VStr ''Widget'', VNum 5],
        [],
        [],
        [],
        [VStr ''Gadget'', VNum 7]]"

definition threeBlankRowsTable :: table where
  "threeBlankRowsTable =
     \<lparr> tid = 0, startRow = 0, endRow = 1,
       headers =
         [\<lparr> hrow = 0, column = 0, hvalue = ''Name'', hlevel = 0 \<rparr>,
          \<lparr> hrow = 0, column = 1, hvalue = ''Qty'', hlevel = 0 \<rparr>],
       dataRows = [[(''Name'', VStr ''Widget''), (''Qty'', VNum 5)]],
       children = [], level = 0, parent = None,
       metadata = \<lparr> indentation = Some 0, patternType = Some ''default'',
                    contentType = Some ''numeric'', relationshipType = None \<rparr>,
       rowCount = Some 1 \<rparr>"

text \<open>
  A table whose third data row repeats the first one but for the quantity (three of four
  fields agree), and whose second row shares nothing with the first.
\<close>

definition nearDuplicateRows :: "rowData list" where
  "nearDuplicateRows =
     [[(''Product Name'', VStr ''Widget''), (''Barcode'', VStr ''123''),
       (''External Code'', VStr ''EXT1''), (''QTY'', VNum 5)],
      [(''Product Name'', VStr ''Gadget''), (''Barcode'', VStr ''456''),
       (''External Code'', VStr ''EXT2''), (''QTY'', VNum 7)],
      [(''Product Name'', VStr ''Widget''), (''Barcode'', VStr ''123''),
       (''External Code'', VStr ''EXT1''), (''QTY'', VNum 6)]]"

definition nearDuplicateTable :: table where
  "nearDuplicateTable = twoBlankRowsTable\<lparr> dataRows := nearDuplicateRows \<rparr>"

definition dateHeader :: header where
  "dateHeader = \<lparr> hrow = 0, column = 0, hvalue = ''Date'', hlevel = 0 \<rparr>"

definition qtyHeader :: header where
  "qtyHeader = \<lparr> hrow = 0, column = 1, hvalue = ''Qty'', hlevel = 0 \<rparr>"

definition columnTable :: "rowData list \<Rightarrow> table" where
  "columnTable rows =
     \<lparr> tid = 0, startRow = 0, endRow = length rows, headers = [dateHeader, qtyHeader],
       dataRows = rows, children = [], level = 0, parent = None,
       metadata = \<lparr> indentation = Some 0, patternType = Some ''default'',
                    contentType = Some ''text'', relationshipType = None \<rparr>,
       rowCount = Some (length rows) \<rparr>"

text \<open>The column of the two dates.\<close>

definition dateColumnTable :: table where
  "dateColumnTable =
     columnTable [[(''Date'', VStr ''2024-01-01'')], [(''Date'', VStr ''2024-02-01'')]]"

text \<open>A table whose second data row has no value under \<open>Date\<close>.\<close>

definition gappedColumnTable :: table where
  "gappedColumnTable =
     columnTable [[(''Date'', VStr ''2024-01-01''), (''Qty'', VNum 5)], [(''Qty'', VNum 7)]]"

text \<open>A table whose first quantity is the number 0.\<close>

definition zeroColumnTable :: table where
  "zeroColumnTable =
     columnTable [[(''Date'', VStr ''2024-01-01''), (''Qty'', VNum 0)],
                  [(''Date'', VStr ''2024-02-01''), (''Qty'', VNum 5)]]"

text \<open>
  Tables as \<open>finalizeTable\<close> leaves them, given by identifier, rows and the column of the
  first of two headers.
\<close>

definition blockTable :: "nat \<Rightarrow> nat \<Rightarrow> nat \<Rightarrow> nat \<Rightarrow> table" where
  "blockTable n first final col =
     \<lparr> tid = n, startRow = first, endRow = final,
       headers = [\<lparr> hrow = first, column = col, hvalue = ''Name'', hlevel = 0 \<rparr>,
                  \<lparr> hrow = first, column = Suc col, hvalue = ''Qty'', hlevel = 0 \<rparr>],
       dataRows = [], children = [], level = 0, parent = None,
       metadata = \<lparr> indentation = Some col, patternType = Some ''default'',
                    contentType = Some ''unknown'', relationshipType = None \<rparr>,
       rowCount = Some 0 \<rparr>"

text \<open>A table and, right below it and one column further in, a second one.\<close>

definition parentChildTables :: "table list" where
  "parentChildTables = [blockTable 0 0 1 0, blockTable 1 2 3 1]"

text \<open>Three tables, each right below the one before and one column further in.\<close>

definition chainTables :: "table list" where
  "chainTables = [blockTable 0 0 1 0, blockTable 1 2 3 1, blockTable 2 4 5 2]"

text \<open>The error of \<open>new RegExp('(', 'i')\<close>, and configurations with that custom pattern.\<close>

definition regexError :: jsError where
  "regexError = \<lparr> message = ''Invalid regular expression: /(/: Unterminated group'',
                    stack = ''SyntaxError: Invalid regular expression'' \<rparr>"

definition badPatternConfig :: excelConfig where
  "badPatternConfig = (lenientConfig exactSimilarity)\<lparr> customPatterns := [Inl regexError] \<rparr>"

definition strictBadPatternConfig :: excelConfig where
  "strictBadPatternConfig = badPatternConfig\<lparr> errorHandling := Some \<lparr> throwErrors = True \<rparr> \<rparr>"

text \<open>A configuration object without the section \<open>headerDetection\<close>.\<close>

definition noDetectionConfig :: excelConfig where
  "noDetectionConfig = (lenientConfig exactSimilarity)\<lparr> headerDetection := None \<rparr>"

text \<open>Two tables with the same identifier; two tables four rows apart.\<close>

definition duplicateIdTables :: "table list" where
  "duplicateIdTables = [blockTable 0 0 1 0, blockTable 0 5 6 0]"

definition nearbyTables :: "table list" where
  "nearbyTables = [blockTable 0 0 1 0, blockTable 1 5 6 0]"


text \<open>A sheet with two tables, three empty rows apart.\<close>

definition twoTablesSheet :: worksheet where
  "twoTablesSheet =
     aoa_to_sheet
       [[VStr ''Name'', VStr ''Qty''],
        [VStr ''Widget'', VNum 5],
        [],
        [],
        [],
        [VStr ''Part'', VStr ''Count''],
        [VStr ''Bolt'', VNum 9]]"

text \<open>The tables that \<open>findBasicTables\<close> builds from \<open>twoTablesSheet\<close>.\<close>

definition twoTablesBuilt :: "table list" where
  "twoTablesBuilt =
     projr (fst (findBasicTables sampleEnvironment (lenientConfig exactSimilarity)
                   twoTablesSheet initialState))"

section \<open>The row scan of \<open>findBasicTables\<close>\<close>

lemma catchPhase_eq:
  "catchPhase env cfg ctx fallback e st =
     (if strictMode cfg then Inl e else Inr fallback, logError env ctx e st)"
  by (simp add: catchPhase_def handleError_def Let_def)

lemma scanRows_append:
  "scanRows cfg ws (xs @ ys) st =
     (case scanRows cfg ws xs st of Inl e \<Rightarrow> Inl e | Inr st' \<Rightarrow> scanRows cfg ws ys st')"
  by (induction xs arbitrary: st) (auto split: sum.splits)

lemma analyzeCols_counts:
  "analyzeCols cfg ws row cols (hc, dc, ec) = Inr (hc', dc', ec') \<Longrightarrow>
     hc \<le> hc' \<and> dc \<le> dc' \<and> ec \<le> ec' \<and> hc' + dc' + ec' \<le> hc + dc + ec + length cols"
proof (induction cols arbitrary: hc dc ec)
  case Nil
  then show ?case by simp
next
  case (Cons col cols)
  from Cons.prems obtain a b c where
    rec: "analyzeCols cfg ws row cols (a, b, c) = Inr (hc', dc', ec')"
    and step: "hc \<le> a" "dc \<le> b" "ec \<le> c" "a + b + c \<le> Suc (hc + dc + ec)"
    by (auto simp: Let_def split: if_splits sum.splits bool.splits)
  from Cons.IH [OF rec] step show ?case by simp
qed

lemma analyzeRow_empty:
  assumes "analyzeRow cfg ws row = Inr ra" and "isEmpty ra"
  shows "\<not> isHeaderRow ra \<and> \<not> isDataRow ra"
proof -
  from assms(1) obtain hc dc ec where
    cols: "analyzeCols cfg ws row [0 ..< Suc (range_e_c ws)] (0, 0, 0) = Inr (hc, dc, ec)"
    and ra: "isHeaderRow ra = (hc \<ge> 2)" "isDataRow ra = (dc > 0)" "isEmpty ra = (ec = range_e_c ws + 1)"
    by (auto simp: analyzeRow_def split: sum.splits prod.splits)
  from analyzeCols_counts [OF cols] have "hc + dc + ec \<le> Suc (range_e_c ws)" by simp
  with assms(2) ra show ?thesis by simp
qed

lemma collectHeaders_total:
  "analyzeCols cfg ws row cols acc = Inr acc' \<Longrightarrow> \<exists>hs'. collectHeaders cfg ws row cols hs = Inr hs'"
proof (induction cols arbitrary: acc hs)
  case Nil
  then show ?case by simp
next
  case (Cons col cols)
  obtain hc dc ec where acc: "acc = (hc, dc, ec)" by (cases acc) 
  from Cons.prems acc obtain acc1 where
    rec: "analyzeCols cfg ws row cols acc1 = Inr acc'"
    by (auto simp: Let_def split: if_splits sum.splits bool.splits)
  have tail: "\<exists>hs'. collectHeaders cfg ws row cols hs1 = Inr hs'" for hs1
    using Cons.IH [OF rec] .
  show ?case
  proof (cases "cells ws row col")
    case (VStr s)
    show ?thesis
    proof (cases "s \<noteq> [] \<and> length (trim s) > 0")
      case True
      with Cons.prems acc VStr obtain b where "testCustomPatterns (customPatterns cfg) s = Inr b"
        by (auto simp: Let_def getCellValue_def isBlankValue_def isPotentialHeader_def
                 split: if_splits sum.splits bool.splits)
      with VStr True tail show ?thesis by auto
    next
      case False
      with VStr tail show ?thesis by auto
    qed
  qed (use tail in auto)
qed

lemma getHeaders_total:
  "analyzeRow cfg ws row = Inr ra \<Longrightarrow> \<exists>hs. getHeaders cfg ws row = Inr hs"
  using collectHeaders_total [of cfg ws row "[0 ..< Suc (range_e_c ws)]" "(0, 0, 0)" _ "[]"]
  by (auto simp: analyzeRow_def getHeaders_def split: sum.splits)

lemma emptyRow_nonHeader: "emptyRowAt cfg ws r \<Longrightarrow> nonHeaderRowAt cfg ws r"
  using analyzeRow_empty [of cfg ws r]
  by (auto simp: emptyRowAt_def nonHeaderRowAt_def split: sum.splits)

lemma scanRow_closed:
  "nonHeaderRowAt cfg ws r \<Longrightarrow> scanRow cfg ws r (tables, None, n) = Inr (tables, None, n)"
  by (auto simp: nonHeaderRowAt_def scanRow_def split: sum.splits)

lemma scanRows_closed:
  "list_all (nonHeaderRowAt cfg ws) rows \<Longrightarrow>
     scanRows cfg ws rows (tables, None, n) = Inr (tables, None, n)"
  by (induction rows) (auto simp: scanRow_closed)

lemma scanRow_header:
  assumes "headerRowAt cfg ws r"
  shows "\<exists>hs. getHeaders cfg ws r = Inr hs \<and>
           scanRow cfg ws r (tables, None, n) =
             Inr (tables,
                  Some \<lparr> tid = n, startRow = r, endRow = r, headers = hs, dataRows = [],
                         children = [], level = 0, parent = None, metadata = emptyMetadata,
                         rowCount = None \<rparr>,
                  Suc n)"
proof -
  from assms obtain ra where ra: "analyzeRow cfg ws r = Inr ra" "isHeaderRow ra"
    by (auto simp: headerRowAt_def split: sum.splits)
  from getHeaders_total [OF ra(1)] obtain hs where "getHeaders cfg ws r = Inr hs" ..
  with ra show ?thesis by (simp add: scanRow_def initializeTable_def)
qed

lemma scanRow_data:
  assumes "dataRowAt cfg ws r"
  shows "scanRow cfg ws r (tables, Some t, n) =
           Inr (tables,
                Some (t\<lparr> endRow := r, dataRows := dataRows t @ [extractRowData ws r (headers t)] \<rparr>),
                n)"
proof -
  from assms obtain ra where ra: "analyzeRow cfg ws r = Inr ra" "isDataRow ra"
    by (auto simp: dataRowAt_def split: sum.splits)
  with analyzeRow_empty [OF ra(1)] have "\<not> isEmpty ra" by blast
  with ra show ?thesis by (simp add: scanRow_def Let_def)
qed

lemma scanRows_data:
  "list_all (dataRowAt cfg ws) rows \<Longrightarrow>
     \<exists>t'. scanRows cfg ws rows (tables, Some t, n) = Inr (tables, Some t', n) \<and>
          headers t' = headers t \<and> startRow t' = startRow t \<and> tid t' = tid t \<and>
          dataRows t' = dataRows t @ map (\<lambda>r. extractRowData ws r (headers t)) rows"
proof (induction rows arbitrary: t)
  case Nil
  then show ?case by simp
next
  case (Cons r rows)
  let ?t1 = "t\<lparr> endRow := r, dataRows := dataRows t @ [extractRowData ws r (headers t)] \<rparr>"
  from Cons.prems have step: "scanRow cfg ws r (tables, Some t, n) = Inr (tables, Some ?t1, n)"
    by (simp add: scanRow_data)
  from Cons.prems Cons.IH [of ?t1] obtain t' where
    "scanRows cfg ws rows (tables, Some ?t1, n) = Inr (tables, Some t', n)"
    "headers t' = headers ?t1" "startRow t' = startRow ?t1" "tid t' = tid ?t1"
    "dataRows t' = dataRows ?t1 @ map (\<lambda>r. extractRowData ws r (headers ?t1)) rows"
    by auto
  with step show ?case by simp
qed

lemma scanRow_empty_open:
  assumes "emptyRowAt cfg ws r"
  shows "scanRow cfg ws r (tables, Some t, n) = Inr (tables, Some t, n) \<or>
         scanRow cfg ws r (tables, Some t, n) = Inr (tables @ [finalizeTable t (r - 1)], None, n)"
proof -
  from assms obtain ra where ra: "analyzeRow cfg ws r = Inr ra" "isEmpty ra"
    by (auto simp: emptyRowAt_def split: sum.splits)
  then show ?thesis by (simp add: scanRow_def)
qed

lemma scanRows_empty_open:
  "list_all (emptyRowAt cfg ws) rows \<Longrightarrow>
     scanRows cfg ws rows (tables, Some t, n) = Inr (tables, Some t, n) \<or>
     (\<exists>e. scanRows cfg ws rows (tables, Some t, n) = Inr (tables @ [finalizeTable t e], None, n))"
proof (induction rows)
  case Nil
  then show ?case by simp
next
  case (Cons r rows)
  then have r: "emptyRowAt cfg ws r" and rows: "list_all (emptyRowAt cfg ws) rows" by simp_all
  from rows have closed: "list_all (nonHeaderRowAt cfg ws) rows"
    by (simp add: list_all_iff emptyRow_nonHeader)
  from scanRow_empty_open [OF r, of tables t n] show ?case
  proof
    assume "scanRow cfg ws r (tables, Some t, n) = Inr (tables, Some t, n)"
    with Cons.IH [OF rows] show ?thesis by simp
  next
    assume "scanRow cfg ws r (tables, Some t, n) = Inr (tables @ [finalizeTable t (r - 1)], None, n)"
    with scanRows_closed [OF closed] show ?thesis by auto
  qed
qed

lemma rowCount_finalizeTable: "rowCount (finalizeTable t e) = Some (length (dataRows t))"
  by (simp add: finalizeTable_def Let_def)

lemma finalizeTable_fields:
  "headers (finalizeTable t e) = headers t" "dataRows (finalizeTable t e) = dataRows t"
  "startRow (finalizeTable t e) = startRow t" "tid (finalizeTable t e) = tid t"
  "children (finalizeTable t e) = children t" "endRow (finalizeTable t e) = e"
  by (simp_all add: finalizeTable_def Let_def)

lemma upt_split: "i \<le> j \<Longrightarrow> j \<le> k \<Longrightarrow> [i ..< k] = [i ..< j] @ [j ..< k]"
  by (metis le_Suc_ex upt_add_eq_append)

text \<open>
  A single block whose empty rows run to the end of the range: rows that are not header
  rows, the header row \<open>h\<close>, \<open>N\<close> data rows, then empty rows only. One table is returned
  and its \<open>rowCount\<close> is \<open>N\<close>.
\<close>

lemma findBasicTables_try_single:
  assumes pre: "list_all (nonHeaderRowAt cfg ws) [0 ..< h]"
    and hdr: "headerRowAt cfg ws h"
    and dat: "list_all (dataRowAt cfg ws) [Suc h ..< Suc (h + N)]"
    and len: "h + N + 2 \<le> range_e_r ws"
    and emp: "list_all (emptyRowAt cfg ws) [Suc (h + N) ..< Suc (range_e_r ws)]"
  shows "\<exists>t. findBasicTables_try cfg ws = Inr [t] \<and> rowCount t = Some N \<and>
             startRow t = h \<and> getHeaders cfg ws h = Inr (headers t) \<and>
             dataRows t = map (\<lambda>r. extractRowData ws r (headers t)) [Suc h ..< Suc (h + N)]"
proof -
  define before where "before = [0 ..< h]"
  define body where "body = [Suc h ..< Suc (h + N)]"
  define blank where "blank = [Suc (h + N) ..< Suc (range_e_r ws)]"
  have split: "[0 ..< Suc (range_e_r ws)] = before @ [h] @ body @ blank"
  proof -
    have "[0 ..< Suc (range_e_r ws)] = [0 ..< h] @ [h ..< Suc (range_e_r ws)]"
      using len by (intro upt_split) simp_all
    also have "[h ..< Suc (range_e_r ws)] = [h ..< Suc (h + N)] @ blank"
      unfolding blank_def using len by (intro upt_split) simp_all
    also have "[h ..< Suc (h + N)] = [h] @ body"
      unfolding body_def by (simp add: upt_conv_Cons del: upt_Suc)
    finally show ?thesis by (simp add: before_def)
  qed
  have body_len: "length body = N" by (simp add: body_def)
  from scanRow_header [OF hdr, of "[]" 0] obtain hs where
    hs: "getHeaders cfg ws h = Inr hs"
    and open_h: "scanRow cfg ws h ([], None, 0) =
      Inr ([], Some \<lparr> tid = 0, startRow = h, endRow = h, headers = hs, dataRows = [],
                       children = [], level = 0, parent = None, metadata = emptyMetadata,
                       rowCount = None \<rparr>, Suc 0)"
    (is "_ = Inr ([], Some ?t0, _)")
    by blast
  from scanRows_data [OF dat [folded body_def], of "[]" ?t0 "Suc 0"] obtain t1 where
    t1: "scanRows cfg ws body ([], Some ?t0, Suc 0) = Inr ([], Some t1, Suc 0)"
    and f1: "headers t1 = hs" "startRow t1 = h"
      "dataRows t1 = map (\<lambda>r. extractRowData ws r hs) body"
    by auto
  have upto: "scanRows cfg ws (before @ [h] @ body) ([], None, 0) = Inr ([], Some t1, Suc 0)"
    by (simp add: scanRows_append scanRows_closed [OF pre [folded before_def]] open_h t1)
  have whole: "scanRows cfg ws [0 ..< Suc (range_e_r ws)] ([], None, 0) =
      scanRows cfg ws blank ([], Some t1, Suc 0)"
  proof -
    have "[0 ..< Suc (range_e_r ws)] = (before @ [h] @ body) @ blank"
      using split by simp
    then show ?thesis
      using upto by (simp only: scanRows_append [of cfg ws "before @ [h] @ body"] sum.case)
  qed
  have "\<exists>e. findBasicTables_try cfg ws = Inr [finalizeTable t1 e]"
    using scanRows_empty_open [OF emp [folded blank_def], of "[]" t1 "Suc 0"]
    unfolding findBasicTables_try_def whole by auto
  then obtain e where "findBasicTables_try cfg ws = Inr [finalizeTable t1 e]" ..
  with hs f1 body_len show ?thesis
    by (simp add: rowCount_finalizeTable finalizeTable_fields body_def)
qed

lemma findBasicTables_of_try:
  "findBasicTables_try cfg ws = Inr tables \<Longrightarrow> findBasicTables env cfg ws st = (Inr tables, st)"
  by (simp add: findBasicTables_def)

lemma scenario_result:
  "findBasicTables_try (lenientConfig sim) scenarioSheet =
     Inr [\<lparr> tid = 0, startRow = 0, endRow = 3,
             headers =
               [\<lparr> hrow = 0, column = 0, hvalue = ''Product Name'', hlevel = 0 \<rparr>,
                \<lparr> hrow = 0, column = 1, hvalue = ''Barcode'', hlevel = 0 \<rparr>,
                \<lparr> hrow = 0, column = 2, hvalue = ''External Code'', hlevel = 0 \<rparr>,
                \<lparr> hrow = 0, column = 3, hvalue = ''QTY'', hlevel = 0 \<rparr>],
             dataRows =
               [[(''Product Name'', VStr ''Widget''), (''Barcode'', VStr ''123''),
                 (''External Code'', VStr ''EXT1''), (''QTY'', VStr ''5'')]],
             children = [], level = 0, parent = None,
             metadata = \<lparr> indentation = Some 0, patternType = Some ''default'',
                          contentType = Some ''text'', relationshipType = None \<rparr>,
             rowCount = Some 1 \<rparr>]"
  by code_simp

text \<open>
  When an empty row closes the open table: exactly when the two rows after it are in the
  range and empty as well, that is, on a run of at least three empty rows.
\<close>

lemma countConsecutiveEmptyRows_gt1:
  "1 < countConsecutiveEmptyRows ws r \<longleftrightarrow>
     Suc (Suc r) \<le> range_e_r ws \<and> rowIsBlank ws (Suc r) \<and> rowIsBlank ws (Suc (Suc r))"
proof (cases "Suc (Suc r) \<le> range_e_r ws")
  case True
  then have "[Suc r ..< Suc (range_e_r ws)] =
      Suc r # Suc (Suc r) # [Suc (Suc (Suc r)) ..< Suc (range_e_r ws)]"
    by (simp add: upt_conv_Cons del: upt_Suc)
  then show ?thesis using True by (simp add: countConsecutiveEmptyRows_def del: upt_Suc)
next
  case False
  then have "length [Suc r ..< Suc (range_e_r ws)] \<le> 1" by simp
  moreover have "countConsecutiveEmptyRows ws r \<le> length [Suc r ..< Suc (range_e_r ws)]"
    unfolding countConsecutiveEmptyRows_def by (rule length_takeWhile_le)
  ultimately show ?thesis using False by simp
qed

lemma empty_row_closes_table_iff:
  assumes "emptyRowAt cfg ws r"
  shows "scanRow cfg ws r (tables, Some t, n) =
     (if Suc (Suc r) \<le> range_e_r ws \<and> rowIsBlank ws (Suc r) \<and> rowIsBlank ws (Suc (Suc r))
      then Inr (tables @ [finalizeTable t (r - 1)], None, n)
      else Inr (tables, Some t, n))"
proof -
  from assms obtain ra where ra: "analyzeRow cfg ws r = Inr ra" "isEmpty ra"
    by (auto simp: emptyRowAt_def split: sum.splits)
  then have "consecutiveEmptyRows ra = countConsecutiveEmptyRows ws r"
    by (auto simp: analyzeRow_def split: sum.splits prod.splits)
  with ra countConsecutiveEmptyRows_gt1 [of ws r] show ?thesis
    by (simp add: scanRow_def)
qed

text \<open>
  A single block followed by a run of at least three empty rows: the first empty row
  closes the table, and whatever rows follow (none of them a header row) are left out. One
  table is returned, it ends at the last data row and its \<open>rowCount\<close> is \<open>N\<close>.
\<close>

lemma analyzeCols_empty_count:
  "analyzeCols cfg ws row cols (hc, dc, ec) = Inr (hc', dc', ec') \<Longrightarrow>
     ec' = ec + length (filter (\<lambda>col. isBlankValue (getCellValue ws row col)) cols)"
proof (induction cols arbitrary: hc dc ec)
  case Nil
  then show ?case by simp
next
  case (Cons col cols)
  show ?case
  proof (cases "isBlankValue (getCellValue ws row col)")
    case True
    with Cons.prems have "analyzeCols cfg ws row cols (hc, dc, Suc ec) = Inr (hc', dc', ec')"
      by simp
    from Cons.IH [OF this] True show ?thesis by simp
  next
    case False
    with Cons.prems obtain a b where "analyzeCols cfg ws row cols (a, b, ec) = Inr (hc', dc', ec')"
      by (auto simp: Let_def split: if_splits sum.splits bool.splits)
    from Cons.IH [OF this] False show ?thesis by simp
  qed
qed

lemma emptyRowAt_blank:
  assumes "emptyRowAt cfg ws r"
  shows "rowIsBlank ws r"
proof -
  let ?P = "\<lambda>col. isBlankValue (getCellValue ws r col)"
  define cols where "cols = [0 ..< Suc (range_e_c ws)]"
  have len: "length cols = range_e_c ws + 1" by (simp add: cols_def)
  from assms obtain hc dc ec where
    run: "analyzeCols cfg ws r cols (0, 0, 0) = Inr (hc, dc, ec)"
    and ec: "ec = range_e_c ws + 1"
    unfolding cols_def
    by (auto simp: emptyRowAt_def analyzeRow_def simp del: upt_Suc split: sum.splits prod.splits)
  from analyzeCols_empty_count [OF run] ec len have "length (filter ?P cols) = length cols"
    by simp
  with sum_length_filter_compl [of ?P cols] have "filter (\<lambda>col. \<not> ?P col) cols = []"
    by simp
  then have "\<forall>col \<in> set cols. ?P col" by (simp only: filter_empty_conv simp_thms)
  then show ?thesis by (simp only: rowIsBlank_def list_all_iff cols_def)
qed

lemma findBasicTables_try_three_blank:
  assumes pre: "list_all (nonHeaderRowAt cfg ws) [0 ..< h]"
    and hdr: "headerRowAt cfg ws h"
    and dat: "list_all (dataRowAt cfg ws) [Suc h ..< Suc (h + N)]"
    and len: "h + N + 3 \<le> range_e_r ws"
    and emp: "emptyRowAt cfg ws (h + N + 1)" "emptyRowAt cfg ws (h + N + 2)"
      "emptyRowAt cfg ws (h + N + 3)"
    and rest: "list_all (nonHeaderRowAt cfg ws) [h + N + 4 ..< Suc (range_e_r ws)]"
  shows "\<exists>t. findBasicTables_try cfg ws = Inr [t] \<and> rowCount t = Some N \<and>
             startRow t = h \<and> endRow t = h + N \<and> getHeaders cfg ws h = Inr (headers t) \<and>
             dataRows t = map (\<lambda>r. extractRowData ws r (headers t)) [Suc h ..< Suc (h + N)]"
proof -
  define r where "r = Suc (h + N)"
  define before where "before = [0 ..< h]"
  define body where "body = [Suc h ..< Suc (h + N)]"
  define after where "after = [Suc r ..< Suc (range_e_r ws)]"
  have split: "[0 ..< Suc (range_e_r ws)] = (before @ [h] @ body) @ r # after"
  proof -
    have "[0 ..< Suc (range_e_r ws)] = [0 ..< h] @ [h ..< Suc (range_e_r ws)]"
      using len by (intro upt_split) simp_all
    also have "[h ..< Suc (range_e_r ws)] = [h ..< Suc (h + N)] @ [r ..< Suc (range_e_r ws)]"
      unfolding r_def using len by (intro upt_split) simp_all
    also have "[h ..< Suc (h + N)] = [h] @ body"
      unfolding body_def by (simp add: upt_conv_Cons del: upt_Suc)
    also have "[r ..< Suc (range_e_r ws)] = r # after"
      unfolding after_def r_def using len by (simp add: upt_conv_Cons del: upt_Suc)
    finally show ?thesis by (simp add: before_def)
  qed
  have body_len: "length body = N" by (simp add: body_def)
  from scanRow_header [OF hdr, of "[]" 0] obtain hs where
    hs: "getHeaders cfg ws h = Inr hs"
    and open_h: "scanRow cfg ws h ([], None, 0) =
      Inr ([], Some \<lparr> tid = 0, startRow = h, endRow = h, headers = hs, dataRows = [],
                       children = [], level = 0, parent = None, metadata = emptyMetadata,
                       rowCount = None \<rparr>, Suc 0)"
    (is "_ = Inr ([], Some ?t0, _)")
    by blast
  from scanRows_data [OF dat [folded body_def], of "[]" ?t0 "Suc 0"] obtain t1 where
    t1: "scanRows cfg ws body ([], Some ?t0, Suc 0) = Inr ([], Some t1, Suc 0)"
    and f1: "headers t1 = hs" "startRow t1 = h"
      "dataRows t1 = map (\<lambda>r. extractRowData ws r hs) body"
    by auto
  have upto: "scanRows cfg ws (before @ [h] @ body) ([], None, 0) = Inr ([], Some t1, Suc 0)"
    by (simp add: scanRows_append scanRows_closed [OF pre [folded before_def]] open_h t1)
  have idx: "h + N + 1 = r" "h + N + 2 = Suc r" "h + N + 3 = Suc (Suc r)"
    by (simp_all add: r_def)
  have e1: "emptyRowAt cfg ws r" and e2: "emptyRowAt cfg ws (Suc r)"
    and e3: "emptyRowAt cfg ws (Suc (Suc r))"
    using emp unfolding idx by blast+
  have b2: "rowIsBlank ws (Suc r)" using e2 by (rule emptyRowAt_blank)
  have b3: "rowIsBlank ws (Suc (Suc r))" using e3 by (rule emptyRowAt_blank)
  have close: "scanRow cfg ws r ([], Some t1, Suc 0) = Inr ([finalizeTable t1 (h + N)], None, Suc 0)"
    using empty_row_closes_table_iff [OF e1, of "[]" t1 "Suc 0"] b2 b3 len
    by (simp add: r_def)
  have after_closed: "list_all (nonHeaderRowAt cfg ws) after"
  proof -
    have four: "h + N + 4 = Suc (Suc (Suc r))" by (simp add: r_def)
    have "after = [Suc r, Suc (Suc r)] @ [h + N + 4 ..< Suc (range_e_r ws)]"
      unfolding after_def four using len by (simp add: r_def upt_conv_Cons del: upt_Suc)
    moreover have "nonHeaderRowAt cfg ws (Suc r)" using e2 by (rule emptyRow_nonHeader)
    moreover have "nonHeaderRowAt cfg ws (Suc (Suc r))" using e3 by (rule emptyRow_nonHeader)
    ultimately show ?thesis using rest by simp
  qed
  have "scanRows cfg ws [0 ..< Suc (range_e_r ws)] ([], None, 0) =
        scanRows cfg ws (r # after) ([], Some t1, Suc 0)"
    using upto by (simp only: split scanRows_append [of cfg ws "before @ [h] @ body"] sum.case)
  also have "\<dots> = scanRows cfg ws after ([finalizeTable t1 (h + N)], None, Suc 0)"
    by (simp add: close)
  also have "\<dots> = Inr ([finalizeTable t1 (h + N)], None, Suc 0)"
    by (rule scanRows_closed [OF after_closed])
  finally have "findBasicTables_try cfg ws = Inr [finalizeTable t1 (h + N)]"
    by (simp add: findBasicTables_try_def)
  with hs f1 body_len show ?thesis
    by (simp add: rowCount_finalizeTable finalizeTable_fields body_def)
qed

lemma threeBlankRows_result:
  "findBasicTables_try (lenientConfig sim) threeBlankRowsSheet = Inr [threeBlankRowsTable]"
  by code_simp

lemma twoBlankRows_result:
  "findBasicTables_try (lenientConfig sim) twoBlankRowsSheet = Inr [twoBlankRowsTable]"
  by code_simp

text \<open>
  Claim C1, evaluated at \<open>twoBlankRowsSheet\<close>. The sheet has exactly one header row (row
  0; no other row has two header-like cells), then one data row, then two empty rows, and a
  further data row below them. The claim gives one table with \<open>rowCount = 1\<close>; the code
  returns one table with \<open>rowCount = 2\<close>, because the run of two empty rows does not close
  the table and the row below it is taken in. With three empty rows instead
  (\<open>threeBlankRowsSheet\<close>) the table is closed and \<open>rowCount\<close> is 1, and in the scenario
  sheet, where the two empty rows end the sheet, \<open>rowCount\<close> is 1 and the first data row has
  \<open>"5"\<close> under \<open>QTY\<close>.
\<close>

theorem rows_below_two_blank_rows_are_counted:
  "headerRowAt (lenientConfig sim) twoBlankRowsSheet 0 \<and>
   list_all (nonHeaderRowAt (lenientConfig sim) twoBlankRowsSheet) [1 ..< 5] \<and>
   list_all (dataRowAt (lenientConfig sim) twoBlankRowsSheet) [1 ..< 2] \<and>
   list_all (emptyRowAt (lenientConfig sim) twoBlankRowsSheet) [2 ..< 4] \<and>
   findBasicTables env (lenientConfig sim) twoBlankRowsSheet st = (Inr [twoBlankRowsTable], st) \<and>
   rowCount twoBlankRowsTable = Some 2 \<and> length (dataRows twoBlankRowsTable) = 2 \<and>
   findBasicTables env (lenientConfig sim) threeBlankRowsSheet st =
     (Inr [threeBlankRowsTable], st) \<and>
   rowCount threeBlankRowsTable = Some 1 \<and> endRow threeBlankRowsTable = 1 \<and>
   map rowCount (projr (fst (findBasicTables env (lenientConfig sim) scenarioSheet st))) =
     [Some 1] \<and>
   getKey (dataRows (hd (projr (fst (findBasicTables env (lenientConfig sim) scenarioSheet st))))
            ! 0) ''QTY'' = VStr ''5''"
proof -
  have rows: "headerRowAt (lenientConfig sim) twoBlankRowsSheet 0 \<and>
      list_all (nonHeaderRowAt (lenientConfig sim) twoBlankRowsSheet) [1 ..< 5] \<and>
      list_all (dataRowAt (lenientConfig sim) twoBlankRowsSheet) [1 ..< 2] \<and>
      list_all (emptyRowAt (lenientConfig sim) twoBlankRowsSheet) [2 ..< 4]"
    by code_simp
  have counts: "rowCount twoBlankRowsTable = Some 2 \<and> length (dataRows twoBlankRowsTable) = 2 \<and>
      rowCount threeBlankRowsTable = Some 1 \<and> endRow threeBlankRowsTable = 1"
    by (simp add: twoBlankRowsTable_def threeBlankRowsTable_def)
  note two = findBasicTables_of_try [OF twoBlankRows_result, of env sim st]
  note three = findBasicTables_of_try [OF threeBlankRows_result, of env sim st]
  note scenario = findBasicTables_of_try [OF scenario_result, of env sim st]
  have "map rowCount (projr (fst (findBasicTables env (lenientConfig sim) scenarioSheet st))) =
          [Some 1] \<and>
        getKey (dataRows (hd (projr (fst (findBasicTables env (lenientConfig sim) scenarioSheet st))))
            ! 0) ''QTY'' = VStr ''5''"
    unfolding scenario by (simp add: getKey_def)
  with rows counts two three show ?thesis by simp
qed

text \<open>
  Claim C2, at the sheet \<open>twoBlankRowsSheet\<close>: rows 2 and 3 are a run of two empty rows
  inside the open table and row 4 is not empty. At row 2 the count of the following empty
  rows is 1, so the test \<open>consecutiveEmptyRows > 1\<close> fails and the table stays open: the one
  table returned ends at row 4 and holds the data rows 1 and 4.
\<close>

theorem two_blank_rows_keep_table_open:
  "emptyRowAt (lenientConfig sim) twoBlankRowsSheet 2 \<and>
   emptyRowAt (lenientConfig sim) twoBlankRowsSheet 3 \<and>
   \<not> emptyRowAt (lenientConfig sim) twoBlankRowsSheet 4 \<and>
   countConsecutiveEmptyRows twoBlankRowsSheet 2 = 1 \<and>
   findBasicTables_try (lenientConfig sim) twoBlankRowsSheet = Inr [twoBlankRowsTable]"
  by code_simp

section \<open>Hierarchy analysis\<close>

lemma isChildTable_shape:
  "startRow a = startRow a' \<Longrightarrow> endRow a = endRow a' \<Longrightarrow> headers a = headers a' \<Longrightarrow>
   startRow b = startRow b' \<Longrightarrow> endRow b = endRow b' \<Longrightarrow> headers b = headers b' \<Longrightarrow>
   isChildTable a b = isChildTable a' b'"
  by (simp add: isChildTable_def)

lemma isChildTable_sameShape:
  "sameShape a a' \<Longrightarrow> sameShape b b' \<Longrightarrow> isChildTable a b = isChildTable a' b'"
  by (simp add: sameShape_def isChildTable_def)

lemma claimChildren_result:
  assumes "i < length store" and "\<forall>j \<in> set js. i < j \<and> j < length store" and "distinct js"
  shows "\<exists>store'.
      claimChildren i js (store, processed) =
        (store', processed \<union>
           set (filter (\<lambda>j. j \<notin> processed \<and> isChildTable (store ! i) (store ! j)) js)) \<and>
      length store' = length store \<and>
      (\<forall>x. x \<noteq> i \<and> x \<notin> set (filter (\<lambda>j. j \<notin> processed \<and> isChildTable (store ! i) (store ! j)) js)
           \<longrightarrow> store' ! x = store ! x) \<and>
      (\<forall>j \<in> set (filter (\<lambda>j. j \<notin> processed \<and> isChildTable (store ! i) (store ! j)) js).
           store' ! j = (store ! j)\<lparr> level := level (store ! i) + 1, parent := Some i \<rparr>) \<and>
      store' ! i = (store ! i)\<lparr> children := children (store ! i) @
           filter (\<lambda>j. j \<notin> processed \<and> isChildTable (store ! i) (store ! j)) js \<rparr>"
  using assms
proof (induction js arbitrary: store processed)
  case Nil
  then show ?case by simp
next
  case (Cons j js)
  from Cons.prems have ij: "i < j" and jlen: "j < length store" and ilen: "i < length store"
    and js: "\<forall>k \<in> set js. i < k \<and> k < length store" and dj: "distinct js" and nj: "j \<notin> set js"
    by auto
  show ?case
  proof (cases "j \<notin> processed \<and> isChildTable (store ! i) (store ! j)")
    case False
    then have step: "claimChildren i (j # js) (store, processed) = claimChildren i js (store, processed)"
      by auto
    have flt: "filter (\<lambda>j. j \<notin> processed \<and> isChildTable (store ! i) (store ! j)) (j # js) =
               filter (\<lambda>j. j \<notin> processed \<and> isChildTable (store ! i) (store ! j)) js"
      using False by simp
    show ?thesis
      unfolding step flt using Cons.IH [OF ilen js dj, of processed] .
  next
    case True
    define child where "child = (store ! j)\<lparr> level := level (store ! i) + 1, parent := Some i \<rparr>"
    define store1 where "store1 = store[j := child]"
    define store2 where "store2 = store1[i := (store1 ! i)\<lparr> children := children (store1 ! i) @ [j] \<rparr>]"
    have s1i: "store1 ! i = store ! i" using ij by (simp add: store1_def)
    have len1: "length store1 = length store" by (simp add: store1_def)
    have s2i: "store2 ! i = (store ! i)\<lparr> children := children (store ! i) @ [j] \<rparr>"
      using ilen len1 s1i by (simp add: store2_def)
    have s2j: "store2 ! j = child" using ij jlen by (simp add: store2_def store1_def)
    have s2x: "store2 ! x = store ! x" if "x \<noteq> i" "x \<noteq> j" for x
      using that by (simp add: store2_def store1_def)
    have len2: "length store2 = length store" by (simp add: store2_def store1_def)
    have step: "claimChildren i (j # js) (store, processed) =
                claimChildren i js (store2, insert j processed)"
      using True by (simp add: Let_def store2_def store1_def child_def)
    have child_eq: "isChildTable (store2 ! i) (store2 ! k) = isChildTable (store ! i) (store ! k)"
      if "k \<in> set js" for k
    proof -
      from that js nj have "k \<noteq> i" "k \<noteq> j" by auto
      then show ?thesis by (simp add: s2i s2x isChildTable_def)
    qed
    define new where "new = filter (\<lambda>k. k \<notin> processed \<and> isChildTable (store ! i) (store ! k)) js"
    have flt2: "filter (\<lambda>k. k \<notin> insert j processed \<and> isChildTable (store2 ! i) (store2 ! k)) js = new"
      unfolding new_def using nj child_eq by (intro filter_cong) auto
    have flt: "filter (\<lambda>k. k \<notin> processed \<and> isChildTable (store ! i) (store ! k)) (j # js) = j # new"
      using True by (simp add: new_def)
    have newsub: "set new \<subseteq> set js" by (auto simp: new_def)
    from Cons.IH [of store2 "insert j processed"] ilen js dj len2
    obtain store' where
      r: "claimChildren i js (store2, insert j processed) = (store', insert j processed \<union> set new)"
      and l: "length store' = length store2"
      and o: "\<forall>x. x \<noteq> i \<and> x \<notin> set new \<longrightarrow> store' ! x = store2 ! x"
      and c: "\<forall>k \<in> set new. store' ! k = (store2 ! k)\<lparr> level := level (store2 ! i) + 1, parent := Some i \<rparr>"
      and p: "store' ! i = (store2 ! i)\<lparr> children := children (store2 ! i) @ new \<rparr>"
      unfolding flt2 by auto
    show ?thesis
      unfolding flt
    proof (intro exI [of _ store'] conjI)
      show "claimChildren i (j # js) (store, processed) = (store', processed \<union> set (j # new))"
        using step r by simp
      show "length store' = length store" using l len2 by simp
      show "\<forall>x. x \<noteq> i \<and> x \<notin> set (j # new) \<longrightarrow> store' ! x = store ! x"
        using o s2x by auto
      show "\<forall>k \<in> set (j # new). store' ! k = (store ! k)\<lparr> level := level (store ! i) + 1, parent := Some i \<rparr>"
      proof
        fix k assume "k \<in> set (j # new)"
        then consider "k = j" | "k \<in> set new" by auto
        then show "store' ! k = (store ! k)\<lparr> level := level (store ! i) + 1, parent := Some i \<rparr>"
        proof cases
          case 1
          with newsub nj ij have "k \<noteq> i" "k \<notin> set new" by auto
          with o 1 s2j show ?thesis by (simp add: child_def)
        next
          case 2
          with newsub nj js have "k \<noteq> i" "k \<noteq> j" by auto
          with c 2 s2x s2i show ?thesis by simp
        qed
      qed
      show "store' ! i = (store ! i)\<lparr> children := children (store ! i) @ j # new \<rparr>"
        using p s2i by simp
    qed
  qed
qed


lemma firstParent_snoc:
  "firstParent ts (hier @ [k]) j =
     (case firstParent ts hier j of
        Some i \<Rightarrow> Some i
      | None \<Rightarrow> if k < j \<and> isChildTable (ts ! k) (ts ! j) then Some k else None)"
  by (induction hier) (simp_all add: firstParent_def)

lemma firstParent_Some:
  "firstParent ts hier j = Some i \<Longrightarrow> i \<in> set hier \<and> i < j \<and> isChildTable (ts ! i) (ts ! j)"
  unfolding firstParent_def by (induction hier) (auto split: if_splits)

lemma hierInv_init: "hierInv ts 0 (ts, {}, [])"
  by (simp add: hierInv_def sameShape_def firstParent_def)

lemma assignParents_append:
  "assignParents (xs @ ys) st = assignParents ys (assignParents xs st)"
proof (induction xs arbitrary: st)
  case Nil
  then show ?case by simp
next
  case (Cons x xs)
  obtain store processed hier where st: "st = (store, processed, hier)" by (cases st)
  show ?case
    unfolding st using Cons.IH by (simp add: Let_def split: prod.splits)
qed

lemma hierInv_step:
  assumes inv: "hierInv ts k (store, processed, hier)" and k: "k < length ts"
  shows "hierInv ts (Suc k) (assignParents [k] (store, processed, hier))"
proof -
  let ?n = "length ts"
  from inv have len: "length store = ?n"
    and shape: "\<forall>x < ?n. sameShape (store ! x) (ts ! x)"
    and hier: "hier = filter (\<lambda>x. firstParent ts hier x = None) [0 ..< k]"
    and proc: "processed = {0 ..< k} \<union> {j. j < ?n \<and> firstParent ts hier j \<noteq> None}"
    and claimed: "\<forall>j < ?n. \<forall>i. firstParent ts hier j = Some i \<longrightarrow>
            parent (store ! j) = Some i \<and> level (store ! j) = 1"
    and tops: "\<forall>i \<in> set hier.
            parent (store ! i) = None \<and> level (store ! i) = 0 \<and>
            children (store ! i) = filter (\<lambda>j. firstParent ts hier j = Some i) [Suc i ..< ?n]"
    and rest: "\<forall>x < ?n. x \<notin> set hier \<longrightarrow> children (store ! x) = children (ts ! x)"
    by (simp_all add: hierInv_def)
  have hier_lt: "i < k" if "i \<in> set hier" for i
  proof -
    from that hier have "i \<in> set (filter (\<lambda>x. firstParent ts hier x = None) [0 ..< k])" by simp
    then show ?thesis by simp
  qed
  show ?thesis
  proof (cases "k \<in> processed")
    case True
    with proc have fp: "firstParent ts hier k \<noteq> None" by auto
    have same: "assignParents [k] (store, processed, hier) = (store, processed, hier)"
      using True by simp
    have h': "hier = filter (\<lambda>x. firstParent ts hier x = None) [0 ..< Suc k]"
      using hier fp by simp
    have p': "processed = {0 ..< Suc k} \<union> {j. j < ?n \<and> firstParent ts hier j \<noteq> None}"
      using proc fp k by (auto simp: less_Suc_eq)
    show ?thesis
      unfolding same hierInv_def using len shape h' p' claimed tops rest by simp
  next
    case False
    with proc k have fpk: "firstParent ts hier k = None" by auto
    define store1 where
      "store1 = store[k := (store ! k)\<lparr> children := [], level := 0, parent := None \<rparr>]"
    define new where
      "new = filter (\<lambda>j. j \<notin> processed \<and> isChildTable (store1 ! k) (store1 ! j)) [Suc k ..< ?n]"
    define hier' where "hier' = hier @ [k]"
    have len1: "length store1 = ?n" by (simp add: store1_def len)
    have s1k: "store1 ! k = (store ! k)\<lparr> children := [], level := 0, parent := None \<rparr>"
      using k len by (simp add: store1_def)
    have s1x: "store1 ! x = store ! x" if "x \<noteq> k" for x
      using that by (simp add: store1_def)
    have shape1: "sameShape (store1 ! x) (ts ! x)" if "x < ?n" for x
      using shape that by (cases "x = k") (simp_all add: s1k s1x sameShape_def)
    from claimChildren_result [of k store1 "[Suc k ..< ?n]" processed] k len1
    obtain store' where
      run: "claimChildren k [Suc k ..< ?n] (store1, processed) = (store', processed \<union> set new)"
      and len': "length store' = ?n"
      and other: "\<forall>x. x \<noteq> k \<and> x \<notin> set new \<longrightarrow> store' ! x = store1 ! x"
      and kids: "\<forall>j \<in> set new. store' ! j = (store1 ! j)\<lparr> level := level (store1 ! k) + 1, parent := Some k \<rparr>"
      and top: "store' ! k = (store1 ! k)\<lparr> children := children (store1 ! k) @ new \<rparr>"
      unfolding new_def by auto
    have step: "assignParents [k] (store, processed, hier) =
                (store', insert k (processed \<union> set new), hier')"
      using False run by (simp add: Let_def store1_def len hier'_def)
    have fp': "firstParent ts hier' j =
        (case firstParent ts hier j of
           Some i \<Rightarrow> Some i
         | None \<Rightarrow> if k < j \<and> isChildTable (ts ! k) (ts ! j) then Some k else None)" for j
      unfolding hier'_def by (rule firstParent_snoc)
    have fp_old: "firstParent ts hier j \<noteq> Some k" for j
      using firstParent_Some [of ts hier j k] hier_lt [of k] by auto
    have new_eq: "new = filter (\<lambda>j. firstParent ts hier' j = Some k) [Suc k ..< ?n]"
      unfolding new_def
    proof (intro filter_cong refl)
      fix j assume "j \<in> set [Suc k ..< ?n]"
      then have j: "k < j" "j < ?n" by auto
      have "j \<notin> processed \<longleftrightarrow> firstParent ts hier j = None"
        using proc j by auto
      moreover have "isChildTable (store1 ! k) (store1 ! j) = isChildTable (ts ! k) (ts ! j)"
        using shape1 [of k] shape1 [of j] k j by (intro isChildTable_sameShape) simp_all
      ultimately show "(j \<notin> processed \<and> isChildTable (store1 ! k) (store1 ! j)) =
                       (firstParent ts hier' j = Some k)"
        using j fp_old [of j] by (auto simp: fp' split: option.splits)
    qed
    have new_set: "set new = {j. j < ?n \<and> firstParent ts hier' j = Some k}"
    proof -
      have "firstParent ts hier' j = Some k \<Longrightarrow> Suc k \<le> j" for j
        using firstParent_Some [of ts hier' j k] by simp
      then show ?thesis unfolding new_eq by auto
    qed
    have new_unproc: "j \<notin> processed \<and> k < j \<and> j < ?n" if "j \<in> set new" for j
      using that unfolding new_def by auto
    \<comment> \<open>the clauses of the invariant\<close>
    have c2: "\<forall>x < ?n. sameShape (store' ! x) (ts ! x)"
    proof (intro allI impI)
      fix x assume x: "x < ?n"
      consider "x = k" | "x \<in> set new" | "x \<noteq> k" "x \<notin> set new" by blast
      then show "sameShape (store' ! x) (ts ! x)"
      proof cases
        case 1
        with top shape1 [OF x] show ?thesis by (simp add: sameShape_def)
      next
        case 2
        with kids shape1 [OF x] show ?thesis by (simp add: sameShape_def)
      next
        case 3
        with other shape1 [OF x] show ?thesis by simp
      qed
    qed
    have c3: "hier' = filter (\<lambda>x. firstParent ts hier' x = None) [0 ..< Suc k]"
    proof -
      have "filter (\<lambda>x. firstParent ts hier' x = None) [0 ..< k] =
            filter (\<lambda>x. firstParent ts hier x = None) [0 ..< k]"
        by (intro filter_cong refl) (auto simp: fp' split: option.splits)
      moreover have "firstParent ts hier' k = None"
        by (simp add: fp' fpk)
      ultimately show ?thesis using hier by (simp add: hier'_def)
    qed
    have c4: "insert k (processed \<union> set new) =
              {0 ..< Suc k} \<union> {j. j < ?n \<and> firstParent ts hier' j \<noteq> None}"
    proof -
      have iff: "firstParent ts hier' j \<noteq> None \<longleftrightarrow>
                 firstParent ts hier j \<noteq> None \<or> firstParent ts hier' j = Some k" for j
        by (cases "firstParent ts hier j") (simp_all add: fp')
      have e1: "{j. j < ?n \<and> firstParent ts hier' j \<noteq> None} =
            {j. j < ?n \<and> firstParent ts hier j \<noteq> None} \<union> set new"
        unfolding new_set using iff by blast
      have e2: "{0 ..< Suc k} = insert k {0 ..< k}" by auto
      show ?thesis unfolding e1 e2 proc by blast
    qed
    have c5: "\<forall>j < ?n. \<forall>i. firstParent ts hier' j = Some i \<longrightarrow>
                parent (store' ! j) = Some i \<and> level (store' ! j) = 1"
    proof (intro allI impI)
      fix j i assume j: "j < ?n" and f: "firstParent ts hier' j = Some i"
      show "parent (store' ! j) = Some i \<and> level (store' ! j) = 1"
      proof (cases "firstParent ts hier j")
        case (Some i0)
        with f have "i0 = i" by (simp add: fp')
        from Some j proc have "j \<in> processed" by auto
        with False new_unproc [of j] have "j \<noteq> k" "j \<notin> set new" by auto
        with other s1x have "store' ! j = store ! j" by simp
        with claimed j Some \<open>i0 = i\<close> show ?thesis by simp
      next
        case None
        with f have ik: "i = k" and "k < j" by (auto simp: fp' split: if_splits)
        with f j new_set have "j \<in> set new" by simp
        with kids have "store' ! j = (store1 ! j)\<lparr> level := level (store1 ! k) + 1, parent := Some k \<rparr>"
          by simp
        then show ?thesis by (simp add: ik s1k)
      qed
    qed
    have c6: "\<forall>i \<in> set hier'.
            parent (store' ! i) = None \<and> level (store' ! i) = 0 \<and>
            children (store' ! i) = filter (\<lambda>j. firstParent ts hier' j = Some i) [Suc i ..< ?n]"
    proof
      fix i assume "i \<in> set hier'"
      then consider "i = k" | "i \<in> set hier" by (auto simp: hier'_def)
      then show "parent (store' ! i) = None \<and> level (store' ! i) = 0 \<and>
            children (store' ! i) = filter (\<lambda>j. firstParent ts hier' j = Some i) [Suc i ..< ?n]"
      proof cases
        case 1
        with top s1k new_eq show ?thesis by simp
      next
        case 2
        then have "i < k" by (rule hier_lt)
        with new_unproc [of i] have "i \<noteq> k" "i \<notin> set new" by auto
        with other s1x have eq: "store' ! i = store ! i" by simp
        have "filter (\<lambda>j. firstParent ts hier' j = Some i) [Suc i ..< ?n] =
              filter (\<lambda>j. firstParent ts hier j = Some i) [Suc i ..< ?n]"
          using \<open>i \<noteq> k\<close> by (intro filter_cong refl) (auto simp: fp' split: option.splits)
        with tops 2 eq show ?thesis by simp
      qed
    qed
    have c7: "\<forall>x < ?n. x \<notin> set hier' \<longrightarrow> children (store' ! x) = children (ts ! x)"
    proof (intro allI impI)
      fix x assume x: "x < ?n" and nx: "x \<notin> set hier'"
      then have xk: "x \<noteq> k" and xh: "x \<notin> set hier" by (auto simp: hier'_def)
      show "children (store' ! x) = children (ts ! x)"
      proof (cases "x \<in> set new")
        case True
        with kids have "children (store' ! x) = children (store1 ! x)" by simp
        with xk s1x rest x xh show ?thesis by simp
      next
        case False
        with other xk s1x have "store' ! x = store ! x" by simp
        with rest x xh show ?thesis by simp
      qed
    qed
    show ?thesis
      unfolding step hierInv_def using len' c2 c3 c4 c5 c6 c7 by simp
  qed
qed

lemma hierInv_run:
  "hierInv ts k st \<Longrightarrow> k \<le> length ts \<Longrightarrow> hierInv ts (length ts) (assignParents [k ..< length ts] st)"
proof (induction "length ts - k" arbitrary: k st)
  case 0
  then show ?case by simp
next
  case (Suc d)
  then have k: "k < length ts" by simp
  obtain store processed hier where st: "st = (store, processed, hier)" by (cases st)
  have "[k ..< length ts] = [k] @ [Suc k ..< length ts]"
    using k by (simp add: upt_conv_Cons)
  then have "assignParents [k ..< length ts] st =
             assignParents [Suc k ..< length ts] (assignParents [k] st)"
    by (simp only: assignParents_append)
  moreover have "hierInv ts (Suc k) (assignParents [k] st)"
    using Suc.prems(1) k unfolding st by (rule hierInv_step)
  moreover have "d = length ts - Suc k" using Suc.hyps(2) by simp
  ultimately show ?case using Suc.hyps(1) [of "Suc k"] k by simp
qed

lemma assignParents_invariant:
  "hierInv ts (length ts) (assignParents [0 ..< length ts] (ts, {}, []))"
  using hierInv_run [OF hierInv_init] by simp


lemma find_sorted_Some:
  "sorted_wrt (<) xs \<Longrightarrow>
     find P xs = Some (x::nat) \<longleftrightarrow> x \<in> set xs \<and> P x \<and> (\<forall>y \<in> set xs. y < x \<longrightarrow> \<not> P y)"
proof (induction xs)
  case Nil
  then show ?case by simp
next
  case (Cons a xs)
  then have gt: "\<forall>y \<in> set xs. a < y" and srt: "sorted_wrt (<) xs" by simp_all
  show ?case
  proof (cases "P a")
    case True
    with gt show ?thesis by auto
  next
    case False
    with Cons.IH [OF srt] gt show ?thesis by auto
  qed
qed

lemma filter_upt_from:
  assumes "\<And>j. P j \<Longrightarrow> i < j"
  shows "filter P [0 ..< n] = filter P [Suc i ..< n]"
proof (cases "Suc i \<le> n")
  case True
  then have "[0 ..< n] = [0 ..< Suc i] @ [Suc i ..< n]"
    by (metis le_add_diff_inverse upt_add_eq_append zero_le)
  moreover have "filter P [0 ..< Suc i] = []"
  proof -
    have "\<not> P x" if "x < Suc i" for x
      using assms [of x] that by auto
    then show ?thesis by (simp add: filter_empty_conv del: upt_Suc)
  qed
  ultimately show ?thesis by (simp del: upt_Suc)
next
  case False
  have "\<not> P x" if "x < n" for x
    using assms [of x] that False by auto
  then have "filter P [0 ..< n] = []"
    by (simp add: filter_empty_conv)
  with False show ?thesis by simp
qed

lemma assignParents_result:
  assumes run: "assignParents [0 ..< length ts] (ts, {}, []) = (store, processed, hier)"
  shows "length store = length ts"
    and "\<forall>x < length ts. sameShape (store ! x) (ts ! x)"
    and "\<forall>j < length ts. parent (store ! j) = firstParent ts hier j"
    and "hier = filter (\<lambda>x. parent (store ! x) = None) [0 ..< length ts]"
    and "\<forall>i \<in> set hier. level (store ! i) = 0 \<and>
           children (store ! i) = filter (\<lambda>j. parent (store ! j) = Some i) [0 ..< length ts]"
    and "\<forall>j < length ts. parent (store ! j) \<noteq> None \<longrightarrow> level (store ! j) = 1"
    and "\<forall>x < length ts. x \<notin> set hier \<longrightarrow> children (store ! x) = children (ts ! x)"
proof -
  let ?n = "length ts"
  from assignParents_invariant [of ts] run have inv: "hierInv ts ?n (store, processed, hier)"
    by simp
  then show len: "length store = ?n"
    and shape: "\<forall>x < ?n. sameShape (store ! x) (ts ! x)"
    and rest: "\<forall>x < ?n. x \<notin> set hier \<longrightarrow> children (store ! x) = children (ts ! x)"
    by (simp_all add: hierInv_def)
  from inv have hier: "hier = filter (\<lambda>x. firstParent ts hier x = None) [0 ..< ?n]"
    and claimed: "\<forall>j < ?n. \<forall>i. firstParent ts hier j = Some i \<longrightarrow>
            parent (store ! j) = Some i \<and> level (store ! j) = 1"
    and tops: "\<forall>i \<in> set hier.
            parent (store ! i) = None \<and> level (store ! i) = 0 \<and>
            children (store ! i) = filter (\<lambda>j. firstParent ts hier j = Some i) [Suc i ..< ?n]"
    by (simp_all add: hierInv_def)
  show par: "\<forall>j < ?n. parent (store ! j) = firstParent ts hier j"
  proof (intro allI impI)
    fix j assume j: "j < ?n"
    show "parent (store ! j) = firstParent ts hier j"
    proof (cases "firstParent ts hier j")
      case None
      with j have "j \<in> set (filter (\<lambda>x. firstParent ts hier x = None) [0 ..< ?n])" by simp
      with hier have "j \<in> set hier" by simp
      with tops None show ?thesis by simp
    next
      case (Some i)
      with claimed j show ?thesis by simp
    qed
  qed
  show "hier = filter (\<lambda>x. parent (store ! x) = None) [0 ..< ?n]"
  proof -
    have "filter (\<lambda>x. firstParent ts hier x = None) [0 ..< ?n] =
          filter (\<lambda>x. parent (store ! x) = None) [0 ..< ?n]"
      using par by (intro filter_cong refl) simp
    with hier show ?thesis by simp
  qed
  show "\<forall>i \<in> set hier. level (store ! i) = 0 \<and>
           children (store ! i) = filter (\<lambda>j. parent (store ! j) = Some i) [0 ..< ?n]"
  proof
    fix i assume i: "i \<in> set hier"
    have "filter (\<lambda>j. firstParent ts hier j = Some i) [Suc i ..< ?n] =
          filter (\<lambda>j. firstParent ts hier j = Some i) [0 ..< ?n]"
      using firstParent_Some [of ts hier _ i] by (intro filter_upt_from [symmetric]) simp
    also have "\<dots> = filter (\<lambda>j. parent (store ! j) = Some i) [0 ..< ?n]"
      using par by (intro filter_cong refl) simp
    finally show "level (store ! i) = 0 \<and>
           children (store ! i) = filter (\<lambda>j. parent (store ! j) = Some i) [0 ..< ?n]"
      using tops i by simp
  qed
  show "\<forall>j < ?n. parent (store ! j) \<noteq> None \<longrightarrow> level (store ! j) = 1"
    using par claimed by auto
qed

lemma labelRelationship_fields:
  "parent (labelRelationship t) = parent t" "children (labelRelationship t) = children t"
  "level (labelRelationship t) = level t" "tid (labelRelationship t) = tid t"
  by (simp_all add: labelRelationship_def)

lemma relabel_nth:
  "parent (store[i := labelRelationship (store ! i)] ! x) = parent (store ! x) \<and>
   children (store[i := labelRelationship (store ! i)] ! x) = children (store ! x) \<and>
   level (store[i := labelRelationship (store ! i)] ! x) = level (store ! x) \<and>
   tid (store[i := labelRelationship (store ! i)] ! x) = tid (store ! x)"
proof (cases "i = x \<and> i < length store")
  case True
  then show ?thesis by (simp add: labelRelationship_fields)
next
  case False
  then consider "i \<noteq> x" | "length store \<le> i" by force
  then show ?thesis by cases (simp_all add: list_update_beyond)
qed

lemma analyzeTableRelationships_fields:
  "length (analyzeTableRelationships refs store) = length store \<and>
   (\<forall>x. parent (analyzeTableRelationships refs store ! x) = parent (store ! x) \<and>
        children (analyzeTableRelationships refs store ! x) = children (store ! x) \<and>
        level (analyzeTableRelationships refs store ! x) = level (store ! x) \<and>
        tid (analyzeTableRelationships refs store ! x) = tid (store ! x))"
  unfolding analyzeTableRelationships_def
proof (induction refs arbitrary: store)
  case Nil
  then show ?case by simp
next
  case (Cons i refs)
  show ?case
    using Cons.IH [of "store[i := labelRelationship (store ! i)]"] relabel_nth [of store i]
    by simp
qed

lemma analyzeTableHierarchy_try_store:
  "\<exists>store processed hier.
     assignParents [0 ..< length ts] (ts, {}, []) = (store, processed, hier) \<and>
     snd (analyzeTableHierarchy_try env ts) = analyzeTableRelationships hier store \<and>
     (fst (analyzeTableHierarchy_try env ts) = Inr hier \<or>
      (\<exists>e. fst (analyzeTableHierarchy_try env ts) = Inl e))"
proof -
  obtain store processed hier where
    "assignParents [0 ..< length ts] (ts, {}, []) = (store, processed, hier)"
    by (metis prod_cases3)
  then show ?thesis
    by (auto simp: analyzeTableHierarchy_try_def Let_def split: sum.splits)
qed

lemma tablesAfterHierarchy_parents:
  fixes ts :: "table list" and env :: environment
  defines "S \<equiv> tablesAfterHierarchy env ts"
  shows "\<forall>i j. j < length ts \<longrightarrow>
           (parent (S ! j) = Some i \<longleftrightarrow>
              i < j \<and> parent (S ! i) = None \<and> isChildTable (ts ! i) (ts ! j) \<and>
              (\<forall>i' < i. parent (S ! i') = None \<longrightarrow> \<not> isChildTable (ts ! i') (ts ! j)))"
    and "\<forall>i j. j < length ts \<and> parent (S ! j) = Some i \<longrightarrow>
           level (S ! j) = level (S ! i) + 1 \<and> j \<in> set (children (S ! i))"
    and "\<forall>i. i < length ts \<and> parent (S ! i) = None \<longrightarrow>
           level (S ! i) = 0 \<and>
           children (S ! i) = filter (\<lambda>j. parent (S ! j) = Some i) [0 ..< length ts]"
proof -
  let ?n = "length ts"
  from analyzeTableHierarchy_try_store [of ts env] obtain store processed hier where
    run: "assignParents [0 ..< ?n] (ts, {}, []) = (store, processed, hier)"
    and S: "S = analyzeTableRelationships hier store"
    by (auto simp: S_def tablesAfterHierarchy_def)
  from analyzeTableRelationships_fields [of hier store] S
  have fld: "parent (S ! x) = parent (store ! x)" "children (S ! x) = children (store ! x)"
    "level (S ! x) = level (store ! x)" for x
    by simp_all
  note res = assignParents_result [OF run]
  have par: "parent (store ! j) = firstParent ts hier j" if "j < ?n" for j
    using res(3) that by simp
  have hier: "hier = filter (\<lambda>x. parent (store ! x) = None) [0 ..< ?n]"
    by (rule res(4))
  have top_iff: "x \<in> set hier \<longleftrightarrow> x < ?n \<and> parent (store ! x) = None" for x
    by (subst hier) auto
  have srt: "sorted_wrt (<) hier"
    by (subst hier) (simp add: sorted_wrt_filter)
  have main: "parent (store ! j) = Some i \<longleftrightarrow>
              i < j \<and> parent (store ! i) = None \<and> isChildTable (ts ! i) (ts ! j) \<and>
              (\<forall>i' < i. parent (store ! i') = None \<longrightarrow> \<not> isChildTable (ts ! i') (ts ! j))"
    if j: "j < ?n" for i j
  proof -
    have "parent (store ! j) = Some i \<longleftrightarrow>
          i \<in> set hier \<and> (i < j \<and> isChildTable (ts ! i) (ts ! j)) \<and>
          (\<forall>y \<in> set hier. y < i \<longrightarrow> \<not> (y < j \<and> isChildTable (ts ! y) (ts ! j)))"
      unfolding par [OF j] firstParent_def by (rule find_sorted_Some [OF srt])
    also have "\<dots> \<longleftrightarrow>
          i < j \<and> parent (store ! i) = None \<and> isChildTable (ts ! i) (ts ! j) \<and>
          (\<forall>i' < i. parent (store ! i') = None \<longrightarrow> \<not> isChildTable (ts ! i') (ts ! j))"
      using j by (auto simp: top_iff)
    finally show ?thesis .
  qed
  show "\<forall>i j. j < ?n \<longrightarrow>
           (parent (S ! j) = Some i \<longleftrightarrow>
              i < j \<and> parent (S ! i) = None \<and> isChildTable (ts ! i) (ts ! j) \<and>
              (\<forall>i' < i. parent (S ! i') = None \<longrightarrow> \<not> isChildTable (ts ! i') (ts ! j)))"
    unfolding fld using main by blast
  show "\<forall>i j. j < ?n \<and> parent (S ! j) = Some i \<longrightarrow>
           level (S ! j) = level (S ! i) + 1 \<and> j \<in> set (children (S ! i))"
  proof (intro allI impI)
    fix i j assume "j < ?n \<and> parent (S ! j) = Some i"
    then have j: "j < ?n" and p: "parent (store ! j) = Some i" by (simp_all add: fld)
    from main [OF j, of i] p have i: "i < j" "parent (store ! i) = None" by simp_all
    with j have ih: "i \<in> set hier" by (simp add: top_iff)
    with res(5) have "level (store ! i) = 0"
      "children (store ! i) = filter (\<lambda>j. parent (store ! j) = Some i) [0 ..< ?n]"
      by simp_all
    moreover from res(6) j p have "level (store ! j) = 1" by simp
    ultimately show "level (S ! j) = level (S ! i) + 1 \<and> j \<in> set (children (S ! i))"
      using j p by (simp add: fld)
  qed
  show "\<forall>i. i < ?n \<and> parent (S ! i) = None \<longrightarrow>
           level (S ! i) = 0 \<and>
           children (S ! i) = filter (\<lambda>j. parent (S ! j) = Some i) [0 ..< ?n]"
  proof (intro allI impI)
    fix i assume "i < ?n \<and> parent (S ! i) = None"
    then have "i \<in> set hier" by (simp add: top_iff fld)
    with res(5) show "level (S ! i) = 0 \<and>
           children (S ! i) = filter (\<lambda>j. parent (S ! j) = Some i) [0 ..< ?n]"
      by (simp add: fld)
  qed
qed

text \<open>
  Claim C5, with the conditions the loops add. \<open>isChildTable A B\<close> holds exactly when
  \<open>B.startRow = A.endRow + 1\<close> and the column of B's first header (0 without headers) is
  strictly greater than that of A's. After \<open>analyzeTableHierarchy\<close>, table \<open>j\<close> has parent
  \<open>i\<close> exactly when \<open>i\<close> comes before \<open>j\<close> in the list, \<open>i\<close> is itself without parent,
  \<open>isChildTable\<close> holds of the two, and of no earlier table without parent and \<open>j\<close>. A child
  has the level of its parent plus one and is in its parent's \<open>children\<close>; a table without
  parent has level 0 and its \<open>children\<close> are the tables that have it as parent, in list
  order.
\<close>

theorem child_of_first_unclaimed_match:
  "(\<forall>A B. isChildTable A B \<longleftrightarrow>
      startRow B = endRow A + 1 \<and> getTableIndentation A < getTableIndentation B) \<and>
   (\<forall>env ts i j. j < length ts \<longrightarrow>
      (parent (tablesAfterHierarchy env ts ! j) = Some i \<longleftrightarrow>
         i < j \<and> parent (tablesAfterHierarchy env ts ! i) = None \<and>
         isChildTable (ts ! i) (ts ! j) \<and>
         (\<forall>i' < i. parent (tablesAfterHierarchy env ts ! i') = None \<longrightarrow>
                   \<not> isChildTable (ts ! i') (ts ! j)))) \<and>
   (\<forall>env ts i j. j < length ts \<and> parent (tablesAfterHierarchy env ts ! j) = Some i \<longrightarrow>
      level (tablesAfterHierarchy env ts ! j) = level (tablesAfterHierarchy env ts ! i) + 1 \<and>
      j \<in> set (children (tablesAfterHierarchy env ts ! i))) \<and>
   (\<forall>env ts i. i < length ts \<and> parent (tablesAfterHierarchy env ts ! i) = None \<longrightarrow>
      level (tablesAfterHierarchy env ts ! i) = 0 \<and>
      children (tablesAfterHierarchy env ts ! i) =
        filter (\<lambda>j. parent (tablesAfterHierarchy env ts ! j) = Some i) [0 ..< length ts])"
proof (intro conjI)
  show "\<forall>A B. isChildTable A B \<longleftrightarrow>
      startRow B = endRow A + 1 \<and> getTableIndentation A < getTableIndentation B"
    by (simp add: isChildTable_def getTableIndentation_def Let_def)
qed (use tablesAfterHierarchy_parents in blast)+

theorem child_of_first_unclaimed_match_witness:
  "1 < length chainTables \<and>
   parent (tablesAfterHierarchy sampleEnvironment chainTables ! 1) = Some 0 \<and>
   parent (tablesAfterHierarchy sampleEnvironment chainTables ! 0) = None \<and>
   isChildTable (chainTables ! 0) (chainTables ! 1) \<and>
   level (tablesAfterHierarchy sampleEnvironment chainTables ! 1) =
     level (tablesAfterHierarchy sampleEnvironment chainTables ! 0) + 1 \<and>
   1 \<in> set (children (tablesAfterHierarchy sampleEnvironment chainTables ! 0))"
proof -
  have len: "1 < length chainTables" by code_simp
  have top: "parent (tablesAfterHierarchy sampleEnvironment chainTables ! 0) = None"
    and child: "isChildTable (chainTables ! 0) (chainTables ! 1)"
    by code_simp+
  from child_of_first_unclaimed_match [THEN conjunct2, THEN conjunct1, rule_format, OF len,
      of sampleEnvironment 0] top child
  have par: "parent (tablesAfterHierarchy sampleEnvironment chainTables ! 1) = Some 0"
    by simp
  from child_of_first_unclaimed_match [THEN conjunct2, THEN conjunct2, THEN conjunct1,
      rule_format, OF conjI [OF len par]]
  show ?thesis using len top child par by simp
qed

text \<open>
  The claim as stated fails at \<open>chainTables\<close>: the third table starts right below the
  second and is further indented, and the second is the only table of which this holds;
  but the second is itself a child of the first, it is never visited as a parent, and the
  third table stays without parent.
\<close>

theorem child_of_claimed_table_counterexample:
  "startRow (chainTables ! 2) = endRow (chainTables ! 1) + 1 \<and>
   getTableIndentation (chainTables ! 1) < getTableIndentation (chainTables ! 2) \<and>
   isChildTable (chainTables ! 1) (chainTables ! 2) \<and>
   \<not> isChildTable (chainTables ! 0) (chainTables ! 2) \<and>
   parent (tablesAfterHierarchy sampleEnvironment chainTables ! 1) = Some 0 \<and>
   parent (tablesAfterHierarchy sampleEnvironment chainTables ! 2) = None \<and>
   children (tablesAfterHierarchy sampleEnvironment chainTables ! 1) = []"
  by code_simp

text \<open>
  Claim C6, evaluated at \<open>parentChildTables\<close>: the second table becomes the child of the
  first and leaves the list of top-level tables; \<open>analyzeTableRelationships\<close> runs over
  that list only, so the first table is labelled \<open>parent\<close> and the relationship type of the
  child is never set.
\<close>

theorem child_table_gets_no_relationshipType:
  "fst (analyzeTableHierarchy_try env parentChildTables) = Inr [0] \<and>
   parent (snd (analyzeTableHierarchy_try env parentChildTables) ! 1) = Some 0 \<and>
   children (snd (analyzeTableHierarchy_try env parentChildTables) ! 0) = [1] \<and>
   relationshipType (metadata (snd (analyzeTableHierarchy_try env parentChildTables) ! 0)) =
     Some ''parent'' \<and>
   relationshipType (metadata (snd (analyzeTableHierarchy_try env parentChildTables) ! 1)) = None"
  by code_simp

section \<open>The hierarchy of the tables that \<open>findBasicTables\<close> builds\<close>

lemma scanRow_inv:
  assumes inv: "scanInv r st" and step: "scanRow cfg ws r st = Inr st'"
  shows "scanInv (Suc r) st'"
proof -
  obtain tables cur n where st: "st = (tables, cur, n)" by (cases st)
  from step st obtain ra where ra: "analyzeRow cfg ws r = Inr ra"
    by (auto simp: scanRow_def split: sum.splits)
  from inv st have ids: "map tid tables = [0 ..< length tables]"
    and srt: "sorted_wrt rowGap tables"
    and fin: "\<forall>t \<in> set tables. endRow t + 2 \<le> r \<and> children t = []"
    by (simp_all add: scanInv_def)
  show ?thesis
  proof (cases cur)
    case None
    with inv st have n: "n = length tables" by (simp add: scanInv_def)
    show ?thesis
    proof (cases "isHeaderRow ra")
      case True
      with step st ra None obtain t where
        t: "initializeTable cfg ws r n = Inr t" and st': "st' = (tables, Some t, Suc n)"
        by (auto simp: scanRow_def split: sum.splits)
      from t have "tid t = n" "startRow t = r" "children t = []"
        by (auto simp: initializeTable_def split: sum.splits)
      with ids srt fin n st' show ?thesis
        by (auto simp: scanInv_def rowGap_def)
    next
      case False
      with step st ra None have "st' = (tables, None, n)"
        by (simp add: scanRow_def)
      with ids srt fin n show ?thesis by (auto simp: scanInv_def)
    qed
  next
    case (Some c)
    with inv st have c: "n = Suc (length tables)" "tid c = length tables" "startRow c < r"
      "children c = []" "\<forall>t \<in> set tables. rowGap t c"
      by (simp_all add: scanInv_def)
    consider (close) "isEmpty ra \<and> consecutiveEmptyRows ra > 1"
      | (extend) "\<not> (isEmpty ra \<and> consecutiveEmptyRows ra > 1)" "\<not> isEmpty ra"
      | (skip) "\<not> (isEmpty ra \<and> consecutiveEmptyRows ra > 1)" "isEmpty ra"
      by blast
    then show ?thesis
    proof cases
      case close
      with step st ra Some have st': "st' = (tables @ [finalizeTable c (r - 1)], None, n)"
        by (simp add: scanRow_def)
      have f: "tid (finalizeTable c e) = tid c" "startRow (finalizeTable c e) = startRow c"
        "endRow (finalizeTable c e) = e" "children (finalizeTable c e) = children c" for e
        by (simp_all add: finalizeTable_def Let_def)
      define F where "F = finalizeTable c (r - 1)"
      have gap: "\<forall>t \<in> set tables. rowGap t F"
        using c(5) by (simp add: rowGap_def f F_def)
      have A1: "map tid (tables @ [F]) = [0 ..< length (tables @ [F])]"
        using ids c(2) by (simp add: f F_def)
      have A2: "sorted_wrt rowGap (tables @ [F])"
        using srt gap by (simp add: sorted_wrt_append)
      have A3: "\<forall>t \<in> set (tables @ [F]). endRow t + 2 \<le> Suc r \<and> children t = []"
      proof
        fix t assume "t \<in> set (tables @ [F])"
        then consider "t \<in> set tables" | "t = F" by auto
        then show "endRow t + 2 \<le> Suc r \<and> children t = []"
        proof cases
          case 1
          with fin have "endRow t + 2 \<le> r" "children t = []" by simp_all
          then show ?thesis by simp
        next
          case 2
          with c(3,4) show ?thesis by (simp add: f F_def)
        qed
      qed
      have A4: "n = length (tables @ [F])" using c(1) by simp
      from A1 A2 A3 A4 have "scanInv (Suc r) (tables @ [F], None, n)"
        unfolding scanInv_def by (simp only: prod.case option.case simp_thms)
      then show ?thesis by (simp only: st' F_def)
    next
      case extend
      with step st ra Some obtain c' where st': "st' = (tables, Some c', n)"
        and c': "tid c' = tid c" "startRow c' = startRow c" "children c' = children c"
        by (auto simp: scanRow_def Let_def)
      show ?thesis
        unfolding st' scanInv_def using ids srt fin c c'
        by (auto simp: rowGap_def)
    next
      case skip
      with step st ra Some have st': "st' = (tables, Some c, n)"
        by (simp add: scanRow_def)
      show ?thesis
        unfolding st' scanInv_def using ids srt fin c by auto
    qed
  qed
qed

lemma scanRows_inv:
  "scanInv r st \<Longrightarrow> scanRows cfg ws [r ..< m] st = Inr st' \<Longrightarrow> r \<le> m \<Longrightarrow> scanInv m st'"
proof (induction "m - r" arbitrary: r st)
  case 0
  then show ?case by simp
next
  case (Suc d)
  then have r: "r < m" by simp
  then have rows: "[r ..< m] = r # [Suc r ..< m]" by (simp add: upt_conv_Cons)
  from Suc.prems(2) obtain st1 where
    s1: "scanRow cfg ws r st = Inr st1" and s2: "scanRows cfg ws [Suc r ..< m] st1 = Inr st'"
    unfolding rows by (auto split: sum.splits)
  have "scanInv (Suc r) st1" using Suc.prems(1) s1 by (rule scanRow_inv)
  moreover have "d = m - Suc r" using Suc.hyps(2) by simp
  ultimately show ?case using Suc.hyps(1) [of "Suc r" st1] s2 r by simp
qed

lemma findBasicTables_try_shape:
  assumes "findBasicTables_try cfg ws = Inr ts"
  shows "map tid ts = [0 ..< length ts] \<and> sorted_wrt rowGap ts \<and> (\<forall>t \<in> set ts. children t = [])"
proof -
  from assms obtain tables cur n where
    run: "scanRows cfg ws [0 ..< Suc (range_e_r ws)] ([], None, 0) = Inr (tables, cur, n)"
    and ts: "ts = (case cur of Some t \<Rightarrow> tables @ [finalizeTable t (range_e_r ws)] | None \<Rightarrow> tables)"
    by (auto simp: findBasicTables_try_def split: sum.splits option.splits)
  have "scanInv 0 ([], None, 0)" by (simp add: scanInv_def)
  from scanRows_inv [OF this run] have inv: "scanInv (Suc (range_e_r ws)) (tables, cur, n)"
    by simp
  show ?thesis
  proof (cases cur)
    case None
    with inv ts show ?thesis by (auto simp: scanInv_def)
  next
    case (Some c)
    have f: "tid (finalizeTable c e) = tid c" "startRow (finalizeTable c e) = startRow c"
      "children (finalizeTable c e) = children c" for e
      by (simp_all add: finalizeTable_def Let_def)
    from inv Some ts show ?thesis
      by (auto simp: scanInv_def f sorted_wrt_append rowGap_def)
  qed
qed

lemma findBasicTables_shape:
  assumes "findBasicTables env cfg ws st = (Inr ts, st')"
  shows "map tid ts = [0 ..< length ts] \<and> sorted_wrt rowGap ts \<and> (\<forall>t \<in> set ts. children t = [])"
proof (cases "findBasicTables_try cfg ws")
  case (Inr tables)
  with assms have "ts = tables" by (simp add: findBasicTables_def)
  with Inr findBasicTables_try_shape show ?thesis by blast
next
  case (Inl e)
  with assms have "ts = []"
    by (auto simp: findBasicTables_def catchPhase_def handleError_def Let_def split: if_splits)
  then show ?thesis by simp
qed

lemma rowGap_no_child:
  assumes "sorted_wrt rowGap ts" and "i < j" and "j < length ts"
  shows "\<not> isChildTable (ts ! i) (ts ! j)"
proof -
  from assms have "rowGap (ts ! i) (ts ! j)" by (simp add: sorted_wrt_iff_nth_less)
  then show ?thesis by (simp add: rowGap_def isChildTable_def)
qed

lemma validateTables_flat:
  assumes "\<forall>i \<in> set pending. i < length store \<and> children (store ! i) = []"
    and "distinct (map (\<lambda>i. tid (store ! i)) pending)"
    and "\<forall>i \<in> set pending. tid (store ! i) \<notin> visited"
  shows "validateTables store visited pending = None"
  using assms
proof (induction pending arbitrary: visited)
  case Nil
  then show ?case by simp
next
  case (Cons i pending)
  from Cons.prems(1) have a: "\<forall>k \<in> set pending. k < length store \<and> children (store ! k) = []"
    and i: "i < length store" "children (store ! i) = []"
    by simp_all
  from Cons.prems(2) have d: "distinct (map (\<lambda>k. tid (store ! k)) pending)"
    and ni: "tid (store ! i) \<notin> (\<lambda>k. tid (store ! k)) ` set pending"
    by simp_all
  from Cons.prems(3) have v: "tid (store ! i) \<notin> visited"
    and vs: "\<forall>k \<in> set pending. tid (store ! k) \<notin> visited"
    by simp_all
  have "\<forall>k \<in> set pending. tid (store ! k) \<notin> insert (tid (store ! i)) visited"
  proof
    fix k assume k: "k \<in> set pending"
    with ni have "tid (store ! k) \<noteq> tid (store ! i)" by (metis imageI)
    with vs k show "tid (store ! k) \<notin> insert (tid (store ! i)) visited" by simp
  qed
  with a d have "validateTables store (insert (tid (store ! i)) visited) pending = None"
    by (rule Cons.IH)
  with i v show ?case by simp
qed

lemma no_child_pairs_flat:
  fixes ts :: "table list"
  assumes nochild: "\<forall>i j. i < j \<and> j < length ts \<longrightarrow> \<not> isChildTable (ts ! i) (ts ! j)"
    and run: "assignParents [0 ..< length ts] (ts, {}, []) = (store, processed, hier)"
  shows "hier = [0 ..< length ts]"
    and "\<forall>x < length ts. parent (store ! x) = None \<and> children (store ! x) = [] \<and> tid (store ! x) = tid (ts ! x)"
proof -
  note res = assignParents_result [OF run]
  have none: "firstParent ts hier j = None" if "j < length ts" for j
    unfolding firstParent_def find_None_iff using nochild that by blast
  with res(3) have par: "parent (store ! j) = None" if "j < length ts" for j
    using that by simp
  have "filter (\<lambda>x. parent (store ! x) = None) [0 ..< length ts] = [0 ..< length ts]"
    using par by (simp add: filter_id_conv)
  with res(4) show h: "hier = [0 ..< length ts]" by simp
  show "\<forall>x < length ts. parent (store ! x) = None \<and> children (store ! x) = [] \<and> tid (store ! x) = tid (ts ! x)"
  proof (intro allI impI)
    fix x assume x: "x < length ts"
    with h have "x \<in> set hier" by simp
    with res(5) have "children (store ! x) = filter (\<lambda>j. parent (store ! j) = Some x) [0 ..< length ts]"
      by simp
    also have "\<dots> = []" using par by (simp add: filter_empty_conv)
    finally show "parent (store ! x) = None \<and> children (store ! x) = [] \<and> tid (store ! x) = tid (ts ! x)"
      using par [OF x] res(2) x by (simp add: sameShape_def)
  qed
qed

lemma builder_tables_hierarchy:
  fixes ts :: "table list"
  assumes ids: "map tid ts = [0 ..< length ts]" and srt: "sorted_wrt rowGap ts"
  shows "fst (analyzeTableHierarchy_try env ts) = Inr [0 ..< length ts]"
    and "\<forall>x < length ts. parent (tablesAfterHierarchy env ts ! x) = None \<and>
           children (tablesAfterHierarchy env ts ! x) = []"
    and "length (tablesAfterHierarchy env ts) = length ts"
    and "validateTableHierarchy env [0 ..< length ts] (tablesAfterHierarchy env ts) = Inr ()"
proof -
  let ?n = "length ts"
  obtain store processed hier where
    run: "assignParents [0 ..< ?n] (ts, {}, []) = (store, processed, hier)"
    by (metis prod_cases3)
  have nochild: "\<forall>i j. i < j \<and> j < ?n \<longrightarrow> \<not> isChildTable (ts ! i) (ts ! j)"
    using rowGap_no_child [OF srt] by blast
  note flat = no_child_pairs_flat [OF nochild run]
  define S where "S = analyzeTableRelationships hier store"
  from analyzeTableRelationships_fields [of hier store]
  have fld: "length S = length store" "parent (S ! x) = parent (store ! x)"
    "children (S ! x) = children (store ! x)" "tid (S ! x) = tid (store ! x)" for x
    by (simp_all add: S_def)
  have len: "length store = ?n" by (rule assignParents_result(1) [OF run])
  have tids: "tid (S ! x) = x" if "x < ?n" for x
  proof -
    from that have "map tid ts ! x = tid (ts ! x)" by simp
    moreover from that have "[0 ..< ?n] ! x = x" by simp
    ultimately have "tid (ts ! x) = x" using ids by simp
    with flat(2) that show ?thesis by (simp add: fld)
  qed
  have "map (\<lambda>i. tid (S ! i)) [0 ..< ?n] = [0 ..< ?n]"
    using tids by (intro nth_equalityI) simp_all
  then have dist: "distinct (map (\<lambda>i. tid (S ! i)) [0 ..< ?n])" by simp
  have "validateTables S {} [0 ..< ?n] = None"
    using dist flat(2) len by (intro validateTables_flat) (simp_all add: fld)
  then have ok: "validateTableHierarchy env [0 ..< ?n] S = Inr ()"
    by (simp add: validateTableHierarchy_def)
  have result: "analyzeTableHierarchy_try env ts = (Inr [0 ..< ?n], S)"
    using run ok flat(1) by (simp add: analyzeTableHierarchy_try_def Let_def S_def)
  then have S: "tablesAfterHierarchy env ts = S" by (simp add: tablesAfterHierarchy_def)
  from result show "fst (analyzeTableHierarchy_try env ts) = Inr [0 ..< ?n]" by simp
  show "\<forall>x < ?n. parent (tablesAfterHierarchy env ts ! x) = None \<and>
           children (tablesAfterHierarchy env ts ! x) = []"
    unfolding S using flat(2) by (simp add: fld)
  show "length (tablesAfterHierarchy env ts) = ?n" unfolding S by (simp add: fld len)
  show "validateTableHierarchy env [0 ..< ?n] (tablesAfterHierarchy env ts) = Inr ()"
    unfolding S by (rule ok)
qed

text \<open>
  Claim C7. For every table list that \<open>findBasicTables\<close> returns: a later table never
  starts right below an earlier one (a table is closed on an empty row, so the next one
  starts at least two rows below its end), hence no table is claimed as a child; every
  table has no parent and no children, which is a forest without edges; the walk of
  \<open>validateTableHierarchy\<close> over the result returns without its circular-reference
  error, and \<open>analyzeTableHierarchy\<close> returns all tables and logs nothing.
\<close>

theorem builder_tables_never_circular:
  "\<forall>env cfg ws st ts st'.
     findBasicTables env cfg ws st = (Inr ts, st') \<longrightarrow>
     (\<forall>i j. i < j \<and> j < length ts \<longrightarrow> \<not> isChildTable (ts ! i) (ts ! j)) \<and>
     validateTableHierarchy env [0 ..< length ts] (tablesAfterHierarchy env ts) = Inr () \<and>
     (\<forall>x < length ts. parent (tablesAfterHierarchy env ts ! x) = None \<and>
                       children (tablesAfterHierarchy env ts ! x) = []) \<and>
     (\<forall>st2. analyzeTableHierarchy env cfg ts st2 =
              (Inr ([0 ..< length ts], tablesAfterHierarchy env ts), st2))"
proof (intro allI impI)
  fix env cfg ws st and ts :: "table list" and st'
  assume "findBasicTables env cfg ws st = (Inr ts, st')"
  from findBasicTables_shape [OF this]
  have ids: "map tid ts = [0 ..< length ts]" and srt: "sorted_wrt rowGap ts" by simp_all
  note b = builder_tables_hierarchy [OF ids srt, of env]
  have "analyzeTableHierarchy_try env ts = (Inr [0 ..< length ts], tablesAfterHierarchy env ts)"
    using b(1) by (simp add: tablesAfterHierarchy_def prod_eq_iff)
  then have phase: "analyzeTableHierarchy env cfg ts st2 =
      (Inr ([0 ..< length ts], tablesAfterHierarchy env ts), st2)" for st2
    by (simp add: analyzeTableHierarchy_def)
  show "(\<forall>i j. i < j \<and> j < length ts \<longrightarrow> \<not> isChildTable (ts ! i) (ts ! j)) \<and>
     validateTableHierarchy env [0 ..< length ts] (tablesAfterHierarchy env ts) = Inr () \<and>
     (\<forall>x < length ts. parent (tablesAfterHierarchy env ts ! x) = None \<and>
                       children (tablesAfterHierarchy env ts ! x) = []) \<and>
     (\<forall>st2. analyzeTableHierarchy env cfg ts st2 =
              (Inr ([0 ..< length ts], tablesAfterHierarchy env ts), st2))"
    using rowGap_no_child [OF srt] b(2) b(4) phase by blast
qed

theorem builder_tables_never_circular_witness:
  "findBasicTables sampleEnvironment (lenientConfig exactSimilarity) twoTablesSheet initialState =
     (Inr twoTablesBuilt, initialState) \<and>
   map (\<lambda>t. (startRow t, endRow t)) twoTablesBuilt = [(0, 1), (5, 6)] \<and>
   validateTableHierarchy sampleEnvironment [0 ..< length twoTablesBuilt]
     (tablesAfterHierarchy sampleEnvironment twoTablesBuilt) = Inr () \<and>
   analyzeTableHierarchy sampleEnvironment (lenientConfig exactSimilarity) twoTablesBuilt
     initialState =
     (Inr ([0 ..< length twoTablesBuilt], tablesAfterHierarchy sampleEnvironment twoTablesBuilt),
      initialState)"
proof -
  have built: "findBasicTables sampleEnvironment (lenientConfig exactSimilarity) twoTablesSheet
      initialState = (Inr twoTablesBuilt, initialState)"
    by code_simp
  have spans: "map (\<lambda>t. (startRow t, endRow t)) twoTablesBuilt = [(0, 1), (5, 6)]"
    by code_simp
  from builder_tables_never_circular [rule_format, OF built] spans built
  show ?thesis by blast
qed

section \<open>Deduplication of data rows\<close>

lemma rowMatches_iff:
  "rowMatches row newRow \<longleftrightarrow>
     7 * length newRow
       < 10 * length (filter (\<lambda>key. getKey row key = getKey newRow key) (map fst newRow))"
proof (cases "newRow = []")
  case True
  then show ?thesis by (simp add: rowMatches_def)
next
  case False
  define m where "m = length (filter (\<lambda>key. getKey row key = getKey newRow key) (map fst newRow))"
  from False have pos: "0 < real (length newRow)" by simp
  have "rowMatches row newRow \<longleftrightarrow> real m / real (length newRow) > 7 / 10"
    using False by (simp add: rowMatches_def m_def Let_def)
  also have "\<dots> \<longleftrightarrow> 7 * real (length newRow) < 10 * real m"
    using pos by (simp add: field_simps)
  also have "\<dots> \<longleftrightarrow> 7 * length newRow < 10 * m"
    by (metis of_nat_less_iff of_nat_mult of_nat_numeral)
  finally show ?thesis by (simp add: m_def)
qed

lemma uniqueRowsOf_snoc:
  "uniqueRowsOf (rows @ [row]) =
     (if list_ex (\<lambda>kept. rowMatches kept row) (uniqueRowsOf rows)
      then uniqueRowsOf rows else uniqueRowsOf rows @ [row])"
  by (auto simp: uniqueRowsOf_def findMatchingRow_def find_None_iff list_ex_iff)

lemma uniqueRowsOf_subseq: "subseq (uniqueRowsOf rows) rows"
proof (induction rows rule: rev_induct)
  case Nil
  then show ?case by (simp add: uniqueRowsOf_def)
next
  case (snoc row rows)
  then show ?case by (auto simp: uniqueRowsOf_snoc)
qed

lemma uniqueRowsOf_pairwise:
  "i < j \<Longrightarrow> j < length (uniqueRowsOf rows) \<Longrightarrow>
     \<not> rowMatches (uniqueRowsOf rows ! i) (uniqueRowsOf rows ! j)"
proof (induction rows arbitrary: i j rule: rev_induct)
  case Nil
  then show ?case by (simp add: uniqueRowsOf_def)
next
  case (snoc row rows)
  show ?case
  proof (cases "list_ex (\<lambda>kept. rowMatches kept row) (uniqueRowsOf rows)")
    case True
    with snoc show ?thesis by (simp add: uniqueRowsOf_snoc)
  next
    case False
    show ?thesis
    proof (cases "j < length (uniqueRowsOf rows)")
      case True
      with snoc False show ?thesis by (simp add: uniqueRowsOf_snoc nth_append)
    next
      case False': False
      with snoc.prems False have j: "j = length (uniqueRowsOf rows)"
        by (simp add: uniqueRowsOf_snoc)
      with snoc.prems False have "uniqueRowsOf rows ! i \<in> set (uniqueRowsOf rows)" by simp
      with False j snoc.prems show ?thesis
        by (auto simp: uniqueRowsOf_snoc nth_append list_ex_iff)
    qed
  qed
qed

text \<open>
  Claim C4. \<open>processTableData\<close> replaces the data rows of a table by a subsequence of them
  (the order is kept); a row appended to the input is dropped exactly when some row
  already kept matches it, and a kept row matches a candidate exactly when they agree on
  strictly more than 70 percent of the candidate's own keys (\<open>10 * agreeing > 7 * keys\<close>);
  hence of two retained rows the earlier never matches the later.
\<close>

theorem processTableData_deduplicates:
  "(\<forall>t. subseq (dataRows (processTableData t)) (dataRows t)) \<and>
   (\<forall>t rows row.
      dataRows (processTableData (t\<lparr> dataRows := rows @ [row] \<rparr>)) =
        (if \<exists>kept \<in> set (dataRows (processTableData (t\<lparr> dataRows := rows \<rparr>))). rowMatches kept row
         then dataRows (processTableData (t\<lparr> dataRows := rows \<rparr>))
         else dataRows (processTableData (t\<lparr> dataRows := rows \<rparr>)) @ [row])) \<and>
   (\<forall>kept candidate.
      rowMatches kept candidate \<longleftrightarrow>
        7 * length (map fst candidate)
          < 10 * length (filter (\<lambda>key. getKey kept key = getKey candidate key) (map fst candidate))) \<and>
   (\<forall>t i j.
      i < j \<and> j < length (dataRows (processTableData t)) \<longrightarrow>
      \<not> rowMatches (dataRows (processTableData t) ! i) (dataRows (processTableData t) ! j))"
proof (intro conjI allI impI)
  fix t
  show "subseq (dataRows (processTableData t)) (dataRows t)"
    by (simp add: processTableData_def uniqueRowsOf_subseq)
next
  fix t :: table and rows row
  show "dataRows (processTableData (t\<lparr> dataRows := rows @ [row] \<rparr>)) =
        (if \<exists>kept \<in> set (dataRows (processTableData (t\<lparr> dataRows := rows \<rparr>))). rowMatches kept row
         then dataRows (processTableData (t\<lparr> dataRows := rows \<rparr>))
         else dataRows (processTableData (t\<lparr> dataRows := rows \<rparr>)) @ [row])"
    by (simp add: processTableData_def uniqueRowsOf_snoc list_ex_iff)
next
  fix kept candidate
  show "rowMatches kept candidate \<longleftrightarrow>
        7 * length (map fst candidate)
          < 10 * length (filter (\<lambda>key. getKey kept key = getKey candidate key) (map fst candidate))"
    by (simp add: rowMatches_iff)
next
  fix t i j
  assume "i < j \<and> j < length (dataRows (processTableData t))"
  then show "\<not> rowMatches (dataRows (processTableData t) ! i) (dataRows (processTableData t) ! j)"
    by (simp add: processTableData_def uniqueRowsOf_pairwise)
qed

theorem processTableData_deduplicates_witness:
  "dataRows (processTableData nearDuplicateTable) = [nearDuplicateRows ! 0, nearDuplicateRows ! 1] \<and>
   (\<exists>kept \<in> set (dataRows (processTableData (nearDuplicateTable\<lparr> dataRows := take 2 nearDuplicateRows \<rparr>))).
      rowMatches kept (nearDuplicateRows ! 2)) \<and>
   (0::nat) < 1 \<and> 1 < length (dataRows (processTableData nearDuplicateTable)) \<and>
   \<not> rowMatches (dataRows (processTableData nearDuplicateTable) ! 0)
       (dataRows (processTableData nearDuplicateTable) ! 1)"
proof -
  have rows: "dataRows (processTableData nearDuplicateTable) =
      [nearDuplicateRows ! 0, nearDuplicateRows ! 1]"
    by code_simp
  have dropped: "\<exists>kept \<in> set (dataRows (processTableData
      (nearDuplicateTable\<lparr> dataRows := take 2 nearDuplicateRows \<rparr>))).
      rowMatches kept (nearDuplicateRows ! 2)"
    by code_simp
  have bounds: "(0::nat) < 1 \<and> 1 < length (dataRows (processTableData nearDuplicateTable))"
    by (simp add: rows)
  from processTableData_deduplicates [THEN conjunct2, THEN conjunct2, THEN conjunct2,
      rule_format, OF bounds]
  show ?thesis using rows dropped bounds by blast
qed

section \<open>Grouping and merging related tables\<close>






















section \<open>Parents in the result of the pipeline\<close>

lemma update_keeps_parent:
  "parent t' = parent (store ! k) \<Longrightarrow> map parent (store[k := t']) = map parent store"
  by (cases "k < length store") (simp_all add: map_update list_update_beyond list_update_same_conv)

lemma mergeInto_parents:
  "map parent (snd (mergeInto env cfg base ms store)) = map parent store"
proof (induction ms arbitrary: store)
  case Nil
  then show ?case by simp
next
  case (Cons m ms)
  show ?case
  proof (cases "mergeHeaders env cfg (headers (store ! base)) (headers (store ! m))")
    case (Inl e)
    then show ?thesis by simp
  next
    case (Inr hs)
    then show ?thesis by (simp add: Cons.IH update_keeps_parent)
  qed
qed

lemma mergeTables_parents:
  "map parent (snd (mergeTables env cfg grp store)) = map parent store"
  by (simp add: mergeTables_def mergeInto_parents del: mergeInto.simps split: list.splits)

lemma mergeGroups_parents:
  "map parent (snd (mergeGroups env cfg groups store)) = map parent store"
proof (induction groups arbitrary: store)
  case Nil
  then show ?case by simp
next
  case (Cons grp groups)
  obtain r store1 where m: "mergeTables env cfg grp store = (r, store1)" by (cases "mergeTables env cfg grp store")
  with mergeTables_parents [of env cfg grp store] have p1: "map parent store1 = map parent store" by simp
  show ?case
  proof (cases r)
    case (Inl e)
    with m p1 show ?thesis by simp
  next
    case (Inr t)
    obtain r2 store2 where g: "mergeGroups env cfg groups store1 = (r2, store2)"
      by (cases "mergeGroups env cfg groups store1")
    with Cons.IH [of store1] have "map parent store2 = map parent store1" by simp
    with m Inr g p1 show ?thesis by (cases r2) simp_all
  qed
qed

lemma processTableData_fold_parents:
  "map parent (fold (\<lambda>t st. st[t := processTableData (st ! t)]) merged store) = map parent store"
  by (induction merged arbitrary: store) (simp_all add: update_keeps_parent processTableData_def)

lemma processAndMergeTables_try_parents:
  "map parent (snd (processAndMergeTables_try env cfg refs store)) = map parent store"
proof (cases "groupRelatedTables env cfg store refs")
  case (Inl e)
  then show ?thesis by (simp add: processAndMergeTables_try_def)
next
  case (Inr groups)
  obtain r store1 where g: "mergeGroups env cfg groups store = (r, store1)"
    by (cases "mergeGroups env cfg groups store")
  with mergeGroups_parents [of env cfg groups store] have "map parent store1 = map parent store"
    by simp
  with Inr g show ?thesis
    by (cases r) (simp_all add: processAndMergeTables_try_def processTableData_fold_parents)
qed

lemma groupWith_subset:
  "groupWith env cfg store refs i js (used, grp) = Inr (used', grp') \<Longrightarrow>
   \<forall>j \<in> set js. j < length refs \<Longrightarrow> set grp \<subseteq> set refs \<Longrightarrow> set grp' \<subseteq> set refs"
proof (induction js arbitrary: used grp)
  case Nil
  then show ?case by simp
next
  case (Cons j js)
  then have j: "refs ! j \<in> set refs" and js: "\<forall>k \<in> set js. k < length refs" by simp_all
  from Cons.prems(1) consider
      "groupWith env cfg store refs i js (used, grp) = Inr (used', grp')"
    | "groupWith env cfg store refs i js (insert j used, grp @ [refs ! j]) = Inr (used', grp')"
    by (auto split: if_splits sum.splits)
  then show ?case
  proof cases
    case 1
    then show ?thesis using js Cons.prems(3) by (rule Cons.IH)
  next
    case 2
    then show ?thesis using js Cons.prems(3) j by (intro Cons.IH [OF 2]) simp_all
  qed
qed

lemma groupFrom_subset:
  "groupFrom env cfg store refs is (used, groups) = Inr (used', groups') \<Longrightarrow>
   \<forall>i \<in> set is. i < length refs \<Longrightarrow> \<forall>g \<in> set groups. set g \<subseteq> set refs \<Longrightarrow>
   \<forall>g \<in> set groups'. set g \<subseteq> set refs"
proof (induction "is" arbitrary: used groups)
  case Nil
  then show ?case by simp
next
  case (Cons i rest)
  then have i: "refs ! i \<in> set refs" and rest: "\<forall>k \<in> set rest. k < length refs" by simp_all
  show ?case
  proof (cases "i \<in> used")
    case True
    with Cons.prems(1) have "groupFrom env cfg store refs rest (used, groups) = Inr (used', groups')"
      by simp
    then show ?thesis using rest Cons.prems(3) by (rule Cons.IH)
  next
    case False
    with Cons.prems(1) obtain used1 grp where
      w: "groupWith env cfg store refs i [Suc i ..< length refs] (insert i used, [refs ! i]) = Inr (used1, grp)"
      and f: "groupFrom env cfg store refs rest (used1, groups @ [grp]) = Inr (used', groups')"
      by (auto split: sum.splits)
    from groupWith_subset [OF w] i have "set grp \<subseteq> set refs" by simp
    with Cons.prems(3) have "\<forall>g \<in> set (groups @ [grp]). set g \<subseteq> set refs" by simp
    with f rest show ?thesis by (intro Cons.IH [OF f]) simp_all
  qed
qed

lemma mergeInto_base:
  "fst (mergeInto env cfg base ms store) = Inr t \<Longrightarrow> t = base"
  by (induction ms arbitrary: store) (auto split: sum.splits)

lemma mergeTables_member:
  "fst (mergeTables env cfg grp store) = Inr t \<Longrightarrow> t \<in> set grp"
  by (auto simp: mergeTables_def simp del: mergeInto.simps split: list.splits dest: mergeInto_base)

lemma mergeGroups_members:
  "fst (mergeGroups env cfg groups store) = Inr merged \<Longrightarrow>
   \<forall>t \<in> set merged. \<exists>g \<in> set groups. t \<in> set g"
proof (induction groups arbitrary: store merged)
  case Nil
  then show ?case by simp
next
  case (Cons grp groups)
  from Cons.prems obtain t store1 ts where
    m: "mergeTables env cfg grp store = (Inr t, store1)"
    and g: "fst (mergeGroups env cfg groups store1) = Inr ts" and mg: "merged = t # ts"
    by (auto split: sum.splits prod.splits)
  from m mergeTables_member [of env cfg grp store t] have "t \<in> set grp" by simp
  with Cons.IH [OF g] mg show ?case by auto
qed

lemma processAndMergeTables_try_members:
  assumes "fst (processAndMergeTables_try env cfg refs store) = Inr merged"
  shows "set merged \<subseteq> set refs"
proof -
  from assms obtain groups where
    g: "groupRelatedTables env cfg store refs = Inr groups"
    and m: "fst (mergeGroups env cfg groups store) = Inr merged"
    by (auto simp: processAndMergeTables_try_def split: sum.splits prod.splits)
  from g obtain used where
    "groupFrom env cfg store refs [0 ..< length refs] ({}, []) = Inr (used, groups)"
    by (auto simp: groupRelatedTables_def split: sum.splits)
  from groupFrom_subset [OF this] have "\<forall>g \<in> set groups. set g \<subseteq> set refs" by simp
  with mergeGroups_members [OF m] show ?thesis by blast
qed

lemma processAndMergeTables_result:
  assumes "processAndMergeTables env cfg refs store st = (Inr (merged, store'), st')"
  shows "set merged \<subseteq> set refs \<and> map parent store' = map parent store"
proof -
  obtain r store1 where t: "processAndMergeTables_try env cfg refs store = (r, store1)"
    by (cases "processAndMergeTables_try env cfg refs store")
  with processAndMergeTables_try_parents [of env cfg refs store]
  have p: "map parent store1 = map parent store" by simp
  show ?thesis
  proof (cases r)
    case (Inr ts)
    with assms t have "merged = ts" "store' = store1"
      by (simp_all add: processAndMergeTables_def)
    with processAndMergeTables_try_members [of env cfg refs store ts] t Inr p show ?thesis by simp
  next
    case (Inl e)
    with assms t have "merged = refs" "store' = store1"
      by (auto simp: processAndMergeTables_def catchPhase_eq split: if_splits)
    with p show ?thesis by simp
  qed
qed

lemma map_parent_nth:
  assumes "map parent a = map parent b"
  shows "length a = length b" and "x < length b \<Longrightarrow> parent (a ! x) = parent (b ! x)"
proof -
  from assms show l: "length a = length b" by (rule map_eq_imp_length_eq)
  assume "x < length b"
  with l have "map parent a ! x = parent (a ! x)" "map parent b ! x = parent (b ! x)" by simp_all
  with assms show "parent (a ! x) = parent (b ! x)" by simp
qed

lemma hierarchy_normal_return:
  fixes ts :: "table list"
  assumes "analyzeTableHierarchy_try env ts = (Inr hier, store)"
  shows "hier = filter (\<lambda>x. parent (store ! x) = None) [0 ..< length ts]"
    and "\<forall>i j. j < length ts \<and> parent (store ! j) = Some i \<longrightarrow>
           i \<in> set hier \<and> j \<notin> set hier \<and> j \<in> set (children (store ! i))"
    and "\<forall>i \<in> set hier. children (store ! i) =
           filter (\<lambda>j. parent (store ! j) = Some i) [0 ..< length ts]"
proof -
  let ?n = "length ts"
  from assms have S: "store = tablesAfterHierarchy env ts"
    by (simp add: tablesAfterHierarchy_def)
  from analyzeTableHierarchy_try_store [of ts env] assms obtain storeA processed where
    run: "assignParents [0 ..< ?n] (ts, {}, []) = (storeA, processed, hier)"
    and rel: "store = analyzeTableRelationships hier storeA"
    by auto
  from analyzeTableRelationships_fields [of hier storeA] rel
  have fld: "parent (store ! x) = parent (storeA ! x)" for x by simp
  show h: "hier = filter (\<lambda>x. parent (store ! x) = None) [0 ..< ?n]"
    unfolding fld by (rule assignParents_result(4) [OF run])
  then have top_iff: "x \<in> set hier \<longleftrightarrow> x < ?n \<and> parent (store ! x) = None" for x
    by (subst h) auto
  note P = tablesAfterHierarchy_parents [of ts env, folded S]
  show "\<forall>i j. j < ?n \<and> parent (store ! j) = Some i \<longrightarrow>
           i \<in> set hier \<and> j \<notin> set hier \<and> j \<in> set (children (store ! i))"
  proof (intro allI impI)
    fix i j assume a: "j < ?n \<and> parent (store ! j) = Some i"
    with P(1) have "i < j" "parent (store ! i) = None" by blast+
    with a have "i \<in> set hier" by (simp add: top_iff)
    moreover from a have "j \<notin> set hier" by (simp add: top_iff)
    moreover from a P(2) have "j \<in> set (children (store ! i))" by blast
    ultimately show "i \<in> set hier \<and> j \<notin> set hier \<and> j \<in> set (children (store ! i))" by simp
  qed
  show "\<forall>i \<in> set hier. children (store ! i) =
           filter (\<lambda>j. parent (store ! j) = Some i) [0 ..< ?n]"
    using P(3) by (simp add: top_iff)
qed

lemma pipeline_parents:
  assumes "findTableStructures env cfg ws st = (Inr (merged, store), st')"
  shows "\<forall>t \<in> set merged. t < length store \<and> parent (store ! t) = None"
proof (cases "findBasicTables env cfg ws st")
  case (Pair r1 st1)
  show ?thesis
  proof (cases r1)
    case (Inl e)
    with Pair assms have "merged = []"
      by (auto simp: findTableStructures_def catchPhase_eq split: if_splits)
    then show ?thesis by simp
  next
    case (Inr basic)
    let ?n = "length basic"
    let ?S = "tablesAfterHierarchy env basic"
    from Pair Inr have fb: "findBasicTables env cfg ws st = (Inr basic, st1)" by simp
    from findBasicTables_shape [OF fb]
    have ids: "map tid basic = [0 ..< ?n]" and srt: "sorted_wrt rowGap basic" by simp_all
    note b = builder_tables_hierarchy [OF ids srt, of env]
    have "analyzeTableHierarchy_try env basic = (Inr [0 ..< ?n], ?S)"
      using b(1) by (simp add: tablesAfterHierarchy_def prod_eq_iff)
    then have hier: "analyzeTableHierarchy env cfg basic st1 = (Inr ([0 ..< ?n], ?S), st1)"
      by (simp add: analyzeTableHierarchy_def)
    obtain r3 st3 where pm: "processAndMergeTables env cfg [0 ..< ?n] ?S st1 = (r3, st3)"
      by (cases "processAndMergeTables env cfg [0 ..< ?n] ?S st1")
    show ?thesis
    proof (cases r3)
      case (Inl e)
      with fb hier pm assms have "merged = []"
        by (auto simp: findTableStructures_def catchPhase_eq split: if_splits)
      then show ?thesis by simp
    next
      case (Inr res)
      with fb hier pm assms have res: "res = (merged, store)"
        by (auto simp: findTableStructures_def split: prod.splits)
      with pm Inr have "processAndMergeTables env cfg [0 ..< ?n] ?S st1 = (Inr (merged, store), st3)"
        by simp
      from processAndMergeTables_result [OF this]
      have sub: "set merged \<subseteq> set [0 ..< ?n]" and par: "map parent store = map parent ?S"
        by simp_all
      show ?thesis
      proof
        fix t assume "t \<in> set merged"
        with sub have t: "t < ?n" by auto
        with b(3) have t': "t < length ?S" by simp
        from map_parent_nth [OF par] t' have "t < length store" "parent (store ! t) = parent (?S ! t)"
          by simp_all
        with b(2) t show "t < length store \<and> parent (store ! t) = None" by simp
      qed
    qed
  qed
qed

lemma validateTables_leaves:
  assumes "\<forall>c \<in> set cs. c < length store \<and> children (store ! c) = []"
    and "distinct (map (\<lambda>c. tid (store ! c)) cs)"
    and "\<forall>c \<in> set cs. tid (store ! c) \<notin> visited"
  shows "validateTables store visited (cs @ pending) =
         validateTables store (visited \<union> (\<lambda>c. tid (store ! c)) ` set cs) pending"
  using assms
proof (induction cs arbitrary: visited)
  case Nil
  then show ?case by simp
next
  case (Cons c cs)
  from Cons.prems(1) have a: "\<forall>k \<in> set cs. k < length store \<and> children (store ! k) = []"
    and c: "c < length store" "children (store ! c) = []"
    by simp_all
  from Cons.prems(2) have d: "distinct (map (\<lambda>k. tid (store ! k)) cs)"
    and nc: "tid (store ! c) \<notin> (\<lambda>k. tid (store ! k)) ` set cs"
    by simp_all
  from Cons.prems(3) have v: "tid (store ! c) \<notin> visited"
    and vs: "\<forall>k \<in> set cs. tid (store ! k) \<notin> visited"
    by simp_all
  have new: "\<forall>k \<in> set cs. tid (store ! k) \<notin> insert (tid (store ! c)) visited"
  proof
    fix k assume k: "k \<in> set cs"
    with nc have "tid (store ! k) \<noteq> tid (store ! c)" by (metis imageI)
    with vs k show "tid (store ! k) \<notin> insert (tid (store ! c)) visited" by simp
  qed
  have "validateTables store visited ((c # cs) @ pending) =
        validateTables store (insert (tid (store ! c)) visited) (cs @ pending)"
    using c v by simp
  also have "\<dots> = validateTables store
        (insert (tid (store ! c)) visited \<union> (\<lambda>k. tid (store ! k)) ` set cs) pending"
    using a d new by (rule Cons.IH)
  also have "insert (tid (store ! c)) visited \<union> (\<lambda>k. tid (store ! k)) ` set cs =
             visited \<union> (\<lambda>k. tid (store ! k)) ` set (c # cs)"
    by auto
  finally show ?case .
qed

lemma validateTables_depth1:
  fixes store :: "table list"
  assumes inj: "inj_on (\<lambda>x. tid (store ! x)) {..< length store}"
    and leaves: "\<forall>c < length store. parent (store ! c) \<noteq> None \<longrightarrow> children (store ! c) = []"
    and tops: "\<forall>i \<in> set pending. i < length store \<and> parent (store ! i) = None \<and>
                 children (store ! i) =
                   filter (\<lambda>j. parent (store ! j) = Some i) [0 ..< length store]"
    and dist: "distinct pending"
    and range: "W \<subseteq> {..< length store}"
    and seen: "\<forall>x \<in> W. x \<notin> set pending \<and> (\<forall>i \<in> set pending. parent (store ! x) \<noteq> Some i)"
  shows "validateTables store ((\<lambda>x. tid (store ! x)) ` W) pending = None"
  using tops dist range seen
proof (induction pending arbitrary: W)
  case Nil
  then show ?case by simp
next
  case (Cons i pending)
  let ?id = "\<lambda>x. tid (store ! x)"
  let ?cs = "filter (\<lambda>j. parent (store ! j) = Some i) [0 ..< length store]"
  from Cons.prems(1) have i: "i < length store" "parent (store ! i) = None"
    "children (store ! i) = ?cs"
    and tl: "\<forall>k \<in> set pending. k < length store \<and> parent (store ! k) = None \<and>
                 children (store ! k) =
                   filter (\<lambda>j. parent (store ! j) = Some k) [0 ..< length store]"
    by simp_all
  from Cons.prems(2) have ni: "i \<notin> set pending" and dtl: "distinct pending" by simp_all
  from Cons.prems(4) have iW: "i \<notin> W" by auto
  have diff: "?id x \<noteq> ?id y" if "x < length store" "y < length store" "x \<noteq> y" for x y
    using inj that by (auto simp: inj_on_def)
  have inW: "x < length store" if "x \<in> W" for x using Cons.prems(3) that by auto
  have new_i: "?id i \<notin> ?id ` W"
  proof
    assume "?id i \<in> ?id ` W"
    then obtain x where x: "x \<in> W" "?id i = ?id x" by auto
    with diff [OF i(1) inW [OF x(1)]] have "i = x" by auto
    with x iW show False by simp
  qed
  have cs: "c < length store \<and> parent (store ! c) = Some i" if "c \<in> set ?cs" for c
    using that by simp
  have cs_leaf: "\<forall>c \<in> set ?cs. c < length store \<and> children (store ! c) = []"
    using leaves by simp
  have cs_dist: "distinct (map ?id ?cs)"
  proof -
    have "inj_on ?id (set ?cs)"
      by (rule inj_on_subset [OF inj]) auto
    then show ?thesis by (simp add: distinct_map)
  qed
  have cs_new: "\<forall>c \<in> set ?cs. ?id c \<notin> insert (?id i) (?id ` W)"
  proof
    fix c assume c: "c \<in> set ?cs"
    then have cl: "c < length store" and cp: "parent (store ! c) = Some i" by simp_all
    from cp i(2) have "c \<noteq> i" by auto
    with diff [OF cl i(1)] have a: "?id c \<noteq> ?id i" by simp
    have "?id c \<notin> ?id ` W"
    proof
      assume "?id c \<in> ?id ` W"
      then obtain x where x: "x \<in> W" "?id c = ?id x" by auto
      with diff [OF cl inW [OF x(1)]] have "c = x" by auto
      with x(1) Cons.prems(4) cp show False by auto
    qed
    with a show "?id c \<notin> insert (?id i) (?id ` W)" by simp
  qed
  define W' where "W' = insert i W \<union> set ?cs"
  have W'_range: "W' \<subseteq> {..< length store}"
    using Cons.prems(3) i(1) by (auto simp: W'_def)
  have W'_seen: "\<forall>x \<in> W'. x \<notin> set pending \<and> (\<forall>k \<in> set pending. parent (store ! x) \<noteq> Some k)"
  proof
    fix x assume "x \<in> W'"
    then consider "x = i" | "x \<in> W" | "x \<in> set ?cs" by (auto simp: W'_def)
    then show "x \<notin> set pending \<and> (\<forall>k \<in> set pending. parent (store ! x) \<noteq> Some k)"
    proof cases
      case 1
      with ni i(2) show ?thesis by simp
    next
      case 2
      with Cons.prems(4) show ?thesis by auto
    next
      case 3
      then have p: "parent (store ! x) = Some i" by simp
      with tl have "x \<notin> set pending" by auto
      moreover from p ni have "\<forall>k \<in> set pending. parent (store ! x) \<noteq> Some k" by auto
      ultimately show ?thesis by simp
    qed
  qed
  have img: "insert (?id i) (?id ` W) \<union> ?id ` set ?cs = ?id ` W'"
    by (auto simp: W'_def)
  have "validateTables store (?id ` W) (i # pending) =
        validateTables store (insert (?id i) (?id ` W)) (?cs @ pending)"
    using i new_i by simp
  also have "\<dots> = validateTables store (insert (?id i) (?id ` W) \<union> ?id ` set ?cs) pending"
    using cs_leaf cs_dist cs_new by (rule validateTables_leaves)
  also have "\<dots> = validateTables store (?id ` W') pending"
    by (simp only: img)
  also have "\<dots> = None"
    using tl dtl W'_range W'_seen by (rule Cons.IH)
  finally show ?case .
qed


lemma fresh_tables_hierarchy:
  fixes ts :: "table list"
  assumes ids: "distinct (map tid ts)" and fresh: "\<forall>t \<in> set ts. children t = []"
  shows "\<exists>hier. analyzeTableHierarchy_try env ts = (Inr hier, tablesAfterHierarchy env ts)"
    and "length (tablesAfterHierarchy env ts) = length ts"
    and "\<forall>x < length ts. parent (tablesAfterHierarchy env ts ! x) \<noteq> None \<longrightarrow>
           children (tablesAfterHierarchy env ts ! x) = []"
proof -
  let ?n = "length ts"
  obtain storeA processed hier where
    run: "assignParents [0 ..< ?n] (ts, {}, []) = (storeA, processed, hier)"
    by (metis prod_cases3)
  note res = assignParents_result [OF run]
  define S where "S = analyzeTableRelationships hier storeA"
  from analyzeTableRelationships_fields [of hier storeA]
  have fld: "length S = length storeA" "parent (S ! x) = parent (storeA ! x)"
    "children (S ! x) = children (storeA ! x)" "tid (S ! x) = tid (storeA ! x)" for x
    by (simp_all add: S_def)
  have len: "length S = ?n" by (simp add: fld res(1))
  have top_iff: "x \<in> set hier \<longleftrightarrow> x < ?n \<and> parent (S ! x) = None" for x
    by (subst res(4)) (auto simp: fld)
  have tids: "tid (S ! x) = tid (ts ! x)" if "x < ?n" for x
    using res(2) that by (simp add: fld sameShape_def)
  have inj: "inj_on (\<lambda>x. tid (S ! x)) {..< length S}"
  proof (rule inj_onI)
    fix x y assume "x \<in> {..< length S}" "y \<in> {..< length S}" "tid (S ! x) = tid (S ! y)"
    then have x: "x < ?n" and y: "y < ?n" and "tid (ts ! x) = tid (ts ! y)"
      by (simp_all add: len tids)
    then have "map tid ts ! x = map tid ts ! y" by simp
    with nth_eq_iff_index_eq [OF ids, of x y] x y show "x = y" by simp
  qed
  have leaves: "\<forall>c < length S. parent (S ! c) \<noteq> None \<longrightarrow> children (S ! c) = []"
  proof (intro allI impI)
    fix c assume c: "c < length S" and p: "parent (S ! c) \<noteq> None"
    then have "c < ?n" "c \<notin> set hier" by (simp_all add: len top_iff)
    with res(7) have "children (storeA ! c) = children (ts ! c)" by simp
    moreover from \<open>c < ?n\<close> fresh have "children (ts ! c) = []" by simp
    ultimately show "children (S ! c) = []" by (simp add: fld)
  qed
  have tops: "\<forall>i \<in> set hier. i < length S \<and> parent (S ! i) = None \<and>
      children (S ! i) = filter (\<lambda>j. parent (S ! j) = Some i) [0 ..< length S]"
    using res(5) by (simp add: top_iff len fld)
  have dist: "distinct hier" by (subst res(4)) simp
  have "validateTables S ((\<lambda>x. tid (S ! x)) ` {}) hier = None"
    using inj leaves tops dist by (rule validateTables_depth1) simp_all
  then have "validateTableHierarchy env hier S = Inr ()"
    by (simp add: validateTableHierarchy_def)
  with run have result: "analyzeTableHierarchy_try env ts = (Inr hier, S)"
    by (simp add: analyzeTableHierarchy_try_def Let_def S_def)
  then have S: "tablesAfterHierarchy env ts = S" by (simp add: tablesAfterHierarchy_def)
  from result show "\<exists>hier. analyzeTableHierarchy_try env ts = (Inr hier, tablesAfterHierarchy env ts)"
    unfolding S by blast
  show "length (tablesAfterHierarchy env ts) = ?n" unfolding S by (rule len)
  show "\<forall>x < ?n. parent (tablesAfterHierarchy env ts ! x) \<noteq> None \<longrightarrow>
           children (tablesAfterHierarchy env ts ! x) = []"
    unfolding S using leaves by (simp add: len)
qed

text \<open>
  Claim C10. Take a list of tables as the builder makes them: the identifiers are pairwise
  different and no table has children yet. Then \<open>analyzeTableHierarchy\<close> returns from its
  \<open>try\<close> block (the validation does not throw, nothing is logged), the returned list is
  exactly the tables without parent, in list order; a table that is claimed as a child is
  not in the returned list, its parent is, and it is in the \<open>children\<close> of its parent, which
  holds the tables with that parent and no others; a claimed table has no children of its
  own, so it is reached through its parent only. Every list that \<open>findBasicTables\<close> returns
  is such a list, and every table of the list that \<open>findTableStructures\<close> returns has no
  parent.
\<close>

theorem returned_tables_have_no_parent:
  "(\<forall>env cfg ts st.
      distinct (map tid ts) \<and> (\<forall>t \<in> set ts. children t = []) \<longrightarrow>
      (\<exists>hier store.
         analyzeTableHierarchy env cfg ts st = (Inr (hier, store), st) \<and>
         length store = length ts \<and>
         hier = filter (\<lambda>x. parent (store ! x) = None) [0 ..< length ts] \<and>
         (\<forall>t \<in> set hier. t < length store \<and> parent (store ! t) = None) \<and>
         (\<forall>i j. j < length ts \<and> parent (store ! j) = Some i \<longrightarrow>
            i \<in> set hier \<and> j \<notin> set hier \<and> j \<in> set (children (store ! i)) \<and>
            children (store ! j) = []) \<and>
         (\<forall>i \<in> set hier. children (store ! i) =
            filter (\<lambda>j. parent (store ! j) = Some i) [0 ..< length ts]))) \<and>
   (\<forall>env cfg ws st ts st'.
      findBasicTables env cfg ws st = (Inr ts, st') \<longrightarrow>
      distinct (map tid ts) \<and> (\<forall>t \<in> set ts. children t = [])) \<and>
   (\<forall>env cfg ws st merged store st'.
      findTableStructures env cfg ws st = (Inr (merged, store), st') \<longrightarrow>
      (\<forall>t \<in> set merged. t < length store \<and> parent (store ! t) = None))"
proof (intro conjI allI impI)
  fix env and cfg :: excelConfig and ts :: "table list" and st :: parserState
  assume wf: "distinct (map tid ts) \<and> (\<forall>t \<in> set ts. children t = [])"
  let ?S = "tablesAfterHierarchy env ts"
  from wf have ids: "distinct (map tid ts)" and fresh: "\<forall>t \<in> set ts. children t = []"
    by simp_all
  note f = fresh_tables_hierarchy [OF ids fresh, of env]
  from f(1) obtain hier where run: "analyzeTableHierarchy_try env ts = (Inr hier, ?S)" ..
  then have phase: "analyzeTableHierarchy env cfg ts st = (Inr (hier, ?S), st)"
    by (simp add: analyzeTableHierarchy_def)
  note h = hierarchy_normal_return [OF run]
  have top: "\<forall>t \<in> set hier. t < length ?S \<and> parent (?S ! t) = None"
    by (subst h(1)) (simp add: f(2))
  have child: "\<forall>i j. j < length ts \<and> parent (?S ! j) = Some i \<longrightarrow>
            i \<in> set hier \<and> j \<notin> set hier \<and> j \<in> set (children (?S ! i)) \<and>
            children (?S ! j) = []"
    using h(2) f(3) by simp
  show "\<exists>hier store.
         analyzeTableHierarchy env cfg ts st = (Inr (hier, store), st) \<and>
         length store = length ts \<and>
         hier = filter (\<lambda>x. parent (store ! x) = None) [0 ..< length ts] \<and>
         (\<forall>t \<in> set hier. t < length store \<and> parent (store ! t) = None) \<and>
         (\<forall>i j. j < length ts \<and> parent (store ! j) = Some i \<longrightarrow>
            i \<in> set hier \<and> j \<notin> set hier \<and> j \<in> set (children (store ! i)) \<and>
            children (store ! j) = []) \<and>
         (\<forall>i \<in> set hier. children (store ! i) =
            filter (\<lambda>j. parent (store ! j) = Some i) [0 ..< length ts])"
    using phase f(2) h(1) top child h(3) by blast
next
  fix env cfg ws st and ts :: "table list" and st'
  assume "findBasicTables env cfg ws st = (Inr ts, st')"
  from findBasicTables_shape [OF this]
  have ids: "map tid ts = [0 ..< length ts]" and fresh: "\<forall>t \<in> set ts. children t = []"
    by simp_all
  from ids have "distinct (map tid ts)" by simp
  with fresh show "distinct (map tid ts)" "\<forall>t \<in> set ts. children t = []" by simp_all
next
  fix env cfg ws st merged store st'
  assume "findTableStructures env cfg ws st = (Inr (merged, store), st')"
  then show "\<forall>t \<in> set merged. t < length store \<and> parent (store ! t) = None"
    by (rule pipeline_parents)
qed

theorem returned_tables_have_no_parent_witness:
  "distinct (map tid parentChildTables) \<and> list_all (\<lambda>t. children t = []) parentChildTables \<and>
   analyzeTableHierarchy sampleEnvironment (lenientConfig exactSimilarity) parentChildTables
       initialState =
     (Inr ([0], tablesAfterHierarchy sampleEnvironment parentChildTables), initialState) \<and>
   parent (tablesAfterHierarchy sampleEnvironment parentChildTables ! 0) = None \<and>
   parent (tablesAfterHierarchy sampleEnvironment parentChildTables ! 1) = Some 0 \<and>
   children (tablesAfterHierarchy sampleEnvironment parentChildTables ! 0) = [1] \<and>
   children (tablesAfterHierarchy sampleEnvironment parentChildTables ! 1) = [] \<and>
   distinct (map tid twoTablesBuilt) \<and> list_all (\<lambda>t. children t = []) twoTablesBuilt \<and>
   fst (projr (fst (findTableStructures sampleEnvironment (lenientConfig exactSimilarity)
          twoTablesSheet initialState))) = [0, 1] \<and>
   parent (snd (projr (fst (findTableStructures sampleEnvironment (lenientConfig exactSimilarity)
          twoTablesSheet initialState))) ! 0) = None \<and>
   parent (snd (projr (fst (findTableStructures sampleEnvironment (lenientConfig exactSimilarity)
          twoTablesSheet initialState))) ! 1) = None"
proof -
  note parts = returned_tables_have_no_parent
  let ?S = "tablesAfterHierarchy sampleEnvironment parentChildTables"
  have wf: "distinct (map tid parentChildTables) \<and> list_all (\<lambda>t. children t = []) parentChildTables"
    by code_simp
  then have hyp: "distinct (map tid parentChildTables) \<and> (\<forall>t \<in> set parentChildTables. children t = [])"
    by (simp add: list_all_iff)
  have len: "length parentChildTables = 2" by code_simp
  have par: "parent (?S ! 0) = None \<and> parent (?S ! 1) = Some 0" by code_simp
  from parts [THEN conjunct1, rule_format, OF hyp,
      of sampleEnvironment "lenientConfig exactSimilarity" initialState]
  obtain hier store where
    run: "analyzeTableHierarchy sampleEnvironment (lenientConfig exactSimilarity)
            parentChildTables initialState = (Inr (hier, store), initialState)"
    and hier: "hier = filter (\<lambda>x. parent (store ! x) = None) [0 ..< length parentChildTables]"
    and child: "\<forall>i j. j < length parentChildTables \<and> parent (store ! j) = Some i \<longrightarrow>
            i \<in> set hier \<and> j \<notin> set hier \<and> j \<in> set (children (store ! i)) \<and>
            children (store ! j) = []"
    and tops: "\<forall>i \<in> set hier. children (store ! i) =
            filter (\<lambda>j. parent (store ! j) = Some i) [0 ..< length parentChildTables]"
    by blast
  have store: "store = ?S"
    using run
    by (auto simp: analyzeTableHierarchy_def tablesAfterHierarchy_def catchPhase_eq
             split: prod.splits sum.splits if_splits)
  have upt2: "[0 ..< 2] = [0, Suc 0]" by (simp add: upt_conv_Cons)
  from hier par have h0: "hier = [0]" by (simp add: store len upt2)
  from tops par have c0: "children (?S ! 0) = [1]" by (simp add: store len upt2 h0)
  from child par have c1: "children (?S ! 1) = []" by (simp add: store len)
  have built: "findBasicTables sampleEnvironment (lenientConfig exactSimilarity) twoTablesSheet
      initialState = (Inr twoTablesBuilt, initialState)"
    by code_simp
  from parts [THEN conjunct2, THEN conjunct1, rule_format, OF built]
  have wf2: "distinct (map tid twoTablesBuilt) \<and> list_all (\<lambda>t. children t = []) twoTablesBuilt"
    by (simp add: list_all_iff)
  let ?R = "findTableStructures sampleEnvironment (lenientConfig exactSimilarity)
      twoTablesSheet initialState"
  have merged: "fst (projr (fst ?R)) = [0, 1]" by code_simp
  have "isl (fst ?R) = False" by code_simp
  then have "?R = (Inr (fst (projr (fst ?R)), snd (projr (fst ?R))), snd ?R)"
    by (cases ?R, cases "fst ?R") auto
  from parts [THEN conjunct2, THEN conjunct2, rule_format, OF this]
  have "\<forall>t \<in> set (fst (projr (fst ?R))). parent (snd (projr (fst ?R)) ! t) = None"
    by blast
  then have "parent (snd (projr (fst ?R)) ! 0) = None" "parent (snd (projr (fst ?R)) ! 1) = None"
    unfolding merged by simp_all
  with wf run [unfolded store h0] par c0 c1 wf2 merged show ?thesis by blast
qed

section \<open>Column patterns\<close>

text \<open>
  Claim C8, evaluated. For the column of the two dates \<open>extractDataPattern\<close> reports the
  type \<open>date\<close>, the format \<open>YYYY-MM-DD\<close>, unique values and no nulls. In
  \<open>gappedColumnTable\<close> the second row has no value under \<open>Date\<close>, and \<open>hasNulls\<close> is still
  false: the values are filtered by \<open>filter(Boolean)\<close> before the test for nulls. The same
  filter drops the number 0 of \<open>zeroColumnTable\<close> from the examples.
\<close>

theorem extractDataPattern_hasNulls_false:
  "extractDataPattern env dateColumnTable dateHeader =
     Inr (Some \<lparr> valueType = ''date'',
                 valueFormat = \<lparr> formatType = ''date'', formatName = Some ''YYYY-MM-DD'' \<rparr>,
                 isUnique = True, hasNulls = False,
                 examples = [VStr ''2024-01-01'', VStr ''2024-02-01''] \<rparr>) \<and>
   map (\<lambda>row. getKey row (hvalue dateHeader)) (dataRows gappedColumnTable) =
     [VStr ''2024-01-01'', VNull] \<and>
   extractDataPattern env gappedColumnTable dateHeader =
     Inr (Some \<lparr> valueType = ''date'',
                 valueFormat = \<lparr> formatType = ''date'', formatName = Some ''YYYY-MM-DD'' \<rparr>,
                 isUnique = True, hasNulls = False,
                 examples = [VStr ''2024-01-01''] \<rparr>) \<and>
   map (\<lambda>row. getKey row (hvalue qtyHeader)) (dataRows zeroColumnTable) = [VNum 0, VNum 5] \<and>
   extractDataPattern sampleEnvironment zeroColumnTable qtyHeader =
     Inr (Some \<lparr> valueType = ''number'',
                 valueFormat = \<lparr> formatType = ''number'', formatName = Some ''standard'' \<rparr>,
                 isUnique = True, hasNulls = False,
                 examples = [VNum 5] \<rparr>)"
  by code_simp

section \<open>Error handling of the phases\<close>

lemma findTableStructures_lenient:
  assumes "\<not> strictMode cfg"
  shows "\<exists>v st'. findTableStructures env cfg ws st = (Inr v, st')"
  using assms
  by (auto simp: findTableStructures_def findBasicTables_def analyzeTableHierarchy_def
        processAndMergeTables_def catchPhase_eq split: sum.splits prod.splits)

lemma findTableStructures_rethrow:
  "findBasicTables env cfg ws st = (Inl e, st1) \<Longrightarrow>
     findTableStructures env cfg ws st =
       (if strictMode cfg then Inl e else Inr ([], []), logError env ''table-detection'' e st1)"
  "findBasicTables env cfg ws st = (Inr basic, st1) \<Longrightarrow>
   analyzeTableHierarchy env cfg basic st1 = (Inl e, st2) \<Longrightarrow>
     findTableStructures env cfg ws st =
       (if strictMode cfg then Inl e else Inr ([], []), logError env ''table-detection'' e st2)"
  "findBasicTables env cfg ws st = (Inr basic, st1) \<Longrightarrow>
   analyzeTableHierarchy env cfg basic st1 = (Inr (hier, store), st2) \<Longrightarrow>
   processAndMergeTables env cfg hier store st2 = (Inl e, st3) \<Longrightarrow>
     findTableStructures env cfg ws st =
       (if strictMode cfg then Inl e else Inr ([], []), logError env ''table-detection'' e st3)"
  by (simp_all add: findTableStructures_def catchPhase_eq)

text \<open>
  Claim C9. \<open>handleError\<close> appends one entry (id, phase, message, stack, timestamp) to the
  error log and increments \<open>errorsEncountered\<close>. When the \<open>try\<close> block of a phase throws
  \<open>e\<close>, the phase logs \<open>e\<close> under its own name and then, in strict mode, throws \<open>e\<close> again,
  otherwise returns its fallback: the empty list for \<open>basic-table-detection\<close>, the input
  tables for \<open>hierarchy-analysis\<close> and \<open>table-merging\<close>, the empty map for
  \<open>data-grouping\<close>, the empty list for \<open>table-detection\<close>. The block of \<open>table-detection\<close>
  throws when one of the three inner phases throws; without strict mode it never does,
  and \<open>findTableStructures\<close> returns normally.
\<close>

theorem phases_catch_log_and_fall_back:
  "(\<forall>env ctx e st.
      errors (logError env ctx e st) =
        errors st @ [\<lparr> errorId = uuidv4 env (envReads st), errorContext = ctx,
                        errorMessage = message e, errorStack = stack e,
                        timestamp = nowISOString env (envReads st) \<rparr>] \<and>
      errorsEncountered (logError env ctx e st) = errorsEncountered st + 1) \<and>
   (\<forall>env cfg ws st e.
      findBasicTables_try cfg ws = Inl e \<longrightarrow>
      findBasicTables env cfg ws st =
        (if strictMode cfg then Inl e else Inr [],
         logError env ''basic-table-detection'' e st)) \<and>
   (\<forall>env cfg tables st e store.
      analyzeTableHierarchy_try env tables = (Inl e, store) \<longrightarrow>
      analyzeTableHierarchy env cfg tables st =
        (if strictMode cfg then Inl e else Inr ([0 ..< length tables], store),
         logError env ''hierarchy-analysis'' e st)) \<and>
   (\<forall>env cfg refs store st e store'.
      processAndMergeTables_try env cfg refs store = (Inl e, store') \<longrightarrow>
      processAndMergeTables env cfg refs store st =
        (if strictMode cfg then Inl e else Inr (refs, store'),
         logError env ''table-merging'' e st)) \<and>
   (\<forall>env cfg ws st tables store st1 e.
      findTableStructures env cfg ws st = (Inr (tables, store), st1) \<and>
      findRelatedDataGroups_try env tables store = Inl e \<longrightarrow>
      findRelatedDataGroups env cfg ws st =
        (if strictMode cfg then Inl e else Inr [], logError env ''data-grouping'' e st1)) \<and>
   (\<forall>env cfg ws st e st1.
      findBasicTables env cfg ws st = (Inl e, st1) \<longrightarrow>
      findTableStructures env cfg ws st =
        (if strictMode cfg then Inl e else Inr ([], []),
         logError env ''table-detection'' e st1)) \<and>
   (\<forall>env cfg ws st basic st1 e st2.
      findBasicTables env cfg ws st = (Inr basic, st1) \<and>
      analyzeTableHierarchy env cfg basic st1 = (Inl e, st2) \<longrightarrow>
      findTableStructures env cfg ws st =
        (if strictMode cfg then Inl e else Inr ([], []),
         logError env ''table-detection'' e st2)) \<and>
   (\<forall>env cfg ws st basic st1 hier store st2 e st3.
      findBasicTables env cfg ws st = (Inr basic, st1) \<and>
      analyzeTableHierarchy env cfg basic st1 = (Inr (hier, store), st2) \<and>
      processAndMergeTables env cfg hier store st2 = (Inl e, st3) \<longrightarrow>
      findTableStructures env cfg ws st =
        (if strictMode cfg then Inl e else Inr ([], []),
         logError env ''table-detection'' e st3)) \<and>
   (\<forall>env cfg ws st.
      \<not> strictMode cfg \<longrightarrow> (\<exists>v st'. findTableStructures env cfg ws st = (Inr v, st')))"
proof (intro conjI allI impI)
  fix env cfg ws st tables store st1 e
  assume "findTableStructures env cfg ws st = (Inr (tables, store), st1) \<and>
          findRelatedDataGroups_try env tables store = Inl e"
  then show "findRelatedDataGroups env cfg ws st =
      (if strictMode cfg then Inl e else Inr [], logError env ''data-grouping'' e st1)"
    by (simp add: findRelatedDataGroups_def catchPhase_eq)
next
  fix env cfg ws st
  assume "\<not> strictMode cfg"
  then show "\<exists>v st'. findTableStructures env cfg ws st = (Inr v, st')"
    by (rule findTableStructures_lenient)
qed (simp_all add: logError_def findBasicTables_def analyzeTableHierarchy_def
       processAndMergeTables_def catchPhase_eq findTableStructures_rethrow)

theorem phases_catch_log_and_fall_back_witness:
  "findBasicTables_try badPatternConfig scenarioSheet = Inl regexError \<and>
   findBasicTables sampleEnvironment badPatternConfig scenarioSheet initialState =
     (Inr [], logError sampleEnvironment ''basic-table-detection'' regexError initialState) \<and>
   findBasicTables sampleEnvironment strictBadPatternConfig scenarioSheet initialState =
     (Inl regexError, logError sampleEnvironment ''basic-table-detection'' regexError initialState) \<and>
   fst (analyzeTableHierarchy_try sampleEnvironment duplicateIdTables) =
     Inl (mkError sampleEnvironment ''Circular reference detected in table hierarchy: table_0'') \<and>
   fst (analyzeTableHierarchy sampleEnvironment (lenientConfig exactSimilarity)
          duplicateIdTables initialState) =
     Inr ([0, 1], snd (analyzeTableHierarchy_try sampleEnvironment duplicateIdTables)) \<and>
   map errorContext (errors (snd (analyzeTableHierarchy sampleEnvironment
          (lenientConfig exactSimilarity) duplicateIdTables initialState))) =
     [''hierarchy-analysis''] \<and>
   processAndMergeTables sampleEnvironment noDetectionConfig [0, 1] nearbyTables initialState =
     (Inr ([0, 1], nearbyTables),
      logError sampleEnvironment ''table-merging''
        (mkError sampleEnvironment
           ''Cannot read properties of undefined (reading 'fuzzyMatchThreshold')'')
        initialState) \<and>
   fst (findRelatedDataGroups sampleEnvironment (lenientConfig exactSimilarity) scenarioSheet
          initialState) = Inr [] \<and>
   map errorContext (errors (snd (findRelatedDataGroups sampleEnvironment
          (lenientConfig exactSimilarity) scenarioSheet initialState))) = [''data-grouping''] \<and>
   fst (findTableStructures sampleEnvironment strictBadPatternConfig scenarioSheet initialState) =
     Inl regexError \<and>
   map errorContext (errors (snd (findTableStructures sampleEnvironment strictBadPatternConfig
          scenarioSheet initialState))) = [''basic-table-detection'', ''table-detection''] \<and>
   errorsEncountered (snd (findTableStructures sampleEnvironment strictBadPatternConfig
          scenarioSheet initialState)) = 2 \<and>
   (\<exists>v st'. findTableStructures sampleEnvironment badPatternConfig scenarioSheet initialState =
             (Inr v, st'))"
proof -
  note phases = phases_catch_log_and_fall_back
  note basicP = phases [THEN conjunct2, THEN conjunct1, rule_format]
  note hierP = phases [THEN conjunct2, THEN conjunct2, THEN conjunct1, rule_format]
  note mergeP = phases [THEN conjunct2, THEN conjunct2, THEN conjunct2, THEN conjunct1, rule_format]
  note groupP = phases [THEN conjunct2, THEN conjunct2, THEN conjunct2, THEN conjunct2,
      THEN conjunct1, rule_format]
  note detectP = phases [THEN conjunct2, THEN conjunct2, THEN conjunct2, THEN conjunct2,
      THEN conjunct2, THEN conjunct1, rule_format]
  note lenientP = phases [THEN conjunct2, THEN conjunct2, THEN conjunct2, THEN conjunct2,
      THEN conjunct2, THEN conjunct2, THEN conjunct2, THEN conjunct2, rule_format]
  have lenient: "\<not> strictMode badPatternConfig" "\<not> strictMode noDetectionConfig"
    "\<not> strictMode (lenientConfig exactSimilarity)"
    and strict: "strictMode strictBadPatternConfig"
    by code_simp+
  have t1: "findBasicTables_try badPatternConfig scenarioSheet = Inl regexError"
    by code_simp
  have t1': "findBasicTables_try strictBadPatternConfig scenarioSheet = Inl regexError"
    by code_simp
  have c1: "findBasicTables sampleEnvironment badPatternConfig scenarioSheet initialState =
      (Inr [], logError sampleEnvironment ''basic-table-detection'' regexError initialState)"
    using basicP [OF t1] lenient by simp
  have c2: "findBasicTables sampleEnvironment strictBadPatternConfig scenarioSheet initialState =
      (Inl regexError, logError sampleEnvironment ''basic-table-detection'' regexError initialState)"
    using basicP [OF t1'] strict by simp
  have t3: "fst (analyzeTableHierarchy_try sampleEnvironment duplicateIdTables) =
      Inl (mkError sampleEnvironment ''Circular reference detected in table hierarchy: table_0'')"
    by code_simp
  then have t3': "analyzeTableHierarchy_try sampleEnvironment duplicateIdTables =
      (Inl (mkError sampleEnvironment ''Circular reference detected in table hierarchy: table_0''),
       snd (analyzeTableHierarchy_try sampleEnvironment duplicateIdTables))"
    by (metis prod.collapse)
  have len3: "[0 ..< length duplicateIdTables] = [0, 1]" by code_simp
  have c3: "analyzeTableHierarchy sampleEnvironment (lenientConfig exactSimilarity)
        duplicateIdTables initialState =
      (Inr ([0, 1], snd (analyzeTableHierarchy_try sampleEnvironment duplicateIdTables)),
       logError sampleEnvironment ''hierarchy-analysis''
         (mkError sampleEnvironment ''Circular reference detected in table hierarchy: table_0'')
         initialState)"
    using hierP [OF t3'] lenient len3 by simp
  have t4: "processAndMergeTables_try sampleEnvironment noDetectionConfig [0, 1] nearbyTables =
      (Inl (mkError sampleEnvironment
              ''Cannot read properties of undefined (reading 'fuzzyMatchThreshold')''),
       nearbyTables)"
    by code_simp
  have c4: "processAndMergeTables sampleEnvironment noDetectionConfig [0, 1] nearbyTables
        initialState =
      (Inr ([0, 1], nearbyTables),
       logError sampleEnvironment ''table-merging''
         (mkError sampleEnvironment
            ''Cannot read properties of undefined (reading 'fuzzyMatchThreshold')'')
         initialState)"
    using mergeP [OF t4] lenient by simp
  obtain tables store st1 where
    t5: "findTableStructures sampleEnvironment (lenientConfig exactSimilarity) scenarioSheet
           initialState = (Inr (tables, store), st1)"
    using lenientP [OF lenient(3)] by (metis prod.collapse)
  have "(findRelatedDataGroups_try sampleEnvironment
          (fst (projr (fst (findTableStructures sampleEnvironment (lenientConfig exactSimilarity)
             scenarioSheet initialState))))
          (snd (projr (fst (findTableStructures sampleEnvironment (lenientConfig exactSimilarity)
             scenarioSheet initialState)))),
          errors (snd (findTableStructures sampleEnvironment (lenientConfig exactSimilarity)
             scenarioSheet initialState))) =
        (Inl (mkError sampleEnvironment ''this.findRelatedData is not a function''), [])"
    by code_simp
  with t5 have t5': "findRelatedDataGroups_try sampleEnvironment tables store =
      Inl (mkError sampleEnvironment ''this.findRelatedData is not a function'')"
    and e5: "errors st1 = []"
    by simp_all
  have c5: "findRelatedDataGroups sampleEnvironment (lenientConfig exactSimilarity) scenarioSheet
        initialState =
      (Inr [], logError sampleEnvironment ''data-grouping''
         (mkError sampleEnvironment ''this.findRelatedData is not a function'') st1)"
    using groupP [OF conjI [OF t5 t5']] lenient by simp
  have c6: "findTableStructures sampleEnvironment strictBadPatternConfig scenarioSheet initialState =
      (Inl regexError,
       logError sampleEnvironment ''table-detection'' regexError
         (logError sampleEnvironment ''basic-table-detection'' regexError initialState))"
    using detectP [OF c2] strict by simp
  have c7: "\<exists>v st'. findTableStructures sampleEnvironment badPatternConfig scenarioSheet
      initialState = (Inr v, st')"
    using lenientP [OF lenient(1)] .
  show ?thesis
    using t1 c1 c2 t3 c3 c4 c5 e5 c6 c7
    by (simp add: logError_def initialState_def)
qed

end
